theory Spec2Isabelle
  imports Main "HOL-Library.AList" "HOL-Library.Char_ord"
begin

section \<open>Python string operations used by \<open>iconfonts.py\<close>\<close>

text \<open>\<open>s.split(sep)\<close> for a one-character separator: never the empty list, and an
  empty entry wherever two separators touch or the string starts or ends with one.\<close>

fun str_split :: "char \<Rightarrow> string \<Rightarrow> string list" where
  "str_split sep [] = [[]]"
| "str_split sep (c # cs) =
     (if c = sep then [] # str_split sep cs
      else (case str_split sep cs of
              w # ws \<Rightarrow> (c # w) # ws
            | [] \<Rightarrow> [[c]]))"

text \<open>\<open>sep.join(xs)\<close>.\<close>

fun str_join :: "string \<Rightarrow> string list \<Rightarrow> string" where
  "str_join sep [] = []"
| "str_join sep [x] = x"
| "str_join sep (x # y # ys) = x @ sep @ str_join sep (y # ys)"

text \<open>\<open>filter(None, xs)\<close> on strings keeps the non-empty ones.\<close>

definition filter_None :: "string list \<Rightarrow> string list" where
  "filter_None xs = filter (\<lambda>x. x \<noteq> []) xs"

text \<open>\<open>s.rstrip(ch)\<close> for a one-character argument.\<close>

definition rstrip :: "char \<Rightarrow> string \<Rightarrow> string" where
  "rstrip ch s = rev (dropWhile (\<lambda>c. c = ch) (rev s))"

text \<open>How an f-string renders a value that is a string or \<open>None\<close>.\<close>

fun format :: "string option \<Rightarrow> string" where
  "format None = ''None''"
| "format (Some s) = s"

section \<open>The regular expressions of Python's \<open>re\<close>, as far as the extension uses them\<close>

text \<open>
  The extension builds its pattern as the text \<open>"&" + prefix + ICON_RE\<close> and hands it to
  \<open>re.compile\<close> (through \<open>InlineProcessor.__init__\<close>, with the flags \<open>DOTALL | UNICODE\<close>).
  The fragment of the pattern language embedded here covers \<open>ICON_RE\<close> itself: literal
  characters, \<open>.\<close>, character sets of characters and ranges, capturing groups (named with
  \<open>(?P<name>...)\<close> or not), alternation and the greedy repeats \<open>*\<close>, \<open>+\<close>, \<open>?\<close>. A pattern
  that uses anything else compiles to \<open>Unsupported\<close>, and nothing is said about it.
\<close>

datatype regex =
    Eps
  | Lit char
  | Any
  | In "(char \<times> char) list"
  | Seq regex regex
  | Alt regex regex
  | Star regex
  | Plus regex
  | Opt regex
  | Group "string option" regex

datatype error =
    Re_error string
  | Unsupported string
  | KeyError string

fun mk_seq :: "regex list \<Rightarrow> regex" where
  "mk_seq [] = Eps"
| "mk_seq [r] = r"
| "mk_seq (r # rs) = Seq r (mk_seq rs)"

fun mk_alt :: "regex list \<Rightarrow> regex" where
  "mk_alt [] = Eps"
| "mk_alt [r] = r"
| "mk_alt (r # rs) = Alt r (mk_alt rs)"

text \<open>The branches of a group are collected most recent first, and so are the items of
  the branch being read.\<close>

definition close_frame :: "regex list \<Rightarrow> regex list \<Rightarrow> regex" where
  "close_frame alts items = mk_alt (rev (mk_seq (rev items) # alts))"

fun is_repeat :: "regex \<Rightarrow> bool" where
  "is_repeat (Star r) = True"
| "is_repeat (Plus r) = True"
| "is_repeat (Opt r) = True"
| "is_repeat r = False"

fun nullable :: "regex \<Rightarrow> bool" where
  "nullable Eps = True"
| "nullable (Lit c) = False"
| "nullable Any = False"
| "nullable (In rs) = False"
| "nullable (Seq a b) = (nullable a \<and> nullable b)"
| "nullable (Alt a b) = (nullable a \<or> nullable b)"
| "nullable (Star a) = True"
| "nullable (Plus a) = nullable a"
| "nullable (Opt a) = True"
| "nullable (Group n a) = nullable a"

definition repeat :: "char \<Rightarrow> regex \<Rightarrow> regex" where
  "repeat c r = (if c = CHR ''*'' then Star r else if c = CHR ''+'' then Plus r else Opt r)"

definition isidentifier :: "string \<Rightarrow> bool" where
  "isidentifier s =
     (s \<noteq> [] \<and> \<not> (CHR ''0'' \<le> hd s \<and> hd s \<le> CHR ''9'') \<and>
      list_all (\<lambda>c. (CHR ''a'' \<le> c \<and> c \<le> CHR ''z'') \<or> (CHR ''A'' \<le> c \<and> c \<le> CHR ''Z'') \<or>
                     (CHR ''0'' \<le> c \<and> c \<le> CHR ''9'') \<or> c = CHR ''_'') s)"

text \<open>The items between \<open>[\<close> and \<open>]\<close>: \<open>c-d\<close> is a range, a \<open>-\<close> that ends the set is
  itself, a range that runs backwards is an error.\<close>

fun class_items :: "string \<Rightarrow> error + (char \<times> char) list" where
  "class_items [] = Inr []"
| "class_items [c] = Inr [(c, c)]"
| "class_items (c # d # cs) =
     (if d = CHR ''-'' then
        (case cs of
           [] \<Rightarrow> Inr [(c, c), (d, d)]
         | hi # rest \<Rightarrow>
             if hi < c then Inl (Re_error ''bad character range'')
             else (case class_items rest of Inl e \<Rightarrow> Inl e | Inr rs \<Rightarrow> Inr ((c, hi) # rs)))
      else (case class_items (d # cs) of Inl e \<Rightarrow> Inl e | Inr rs \<Rightarrow> Inr ((c, c) # rs)))"

text \<open>
  The parser reads the pattern left to right. A frame is the group being read: its name,
  its finished branches and the items of its current branch; the stack holds the frames of
  the enclosing groups, and \<open>names\<close> the group names defined so far.
\<close>

type_synonym frame = "string option \<times> regex list \<times> regex list"

function parse :: "frame \<Rightarrow> frame list \<Rightarrow> string list \<Rightarrow> string \<Rightarrow> error + regex" where
  "parse (nm, alts, items) stk names [] =
     (if stk = [] then Inr (close_frame alts items)
      else Inl (Re_error ''missing ), unterminated subpattern''))"
| "parse (nm, alts, items) stk names (c # cs) =
     (if c = CHR ''|'' then parse (nm, mk_seq (rev items) # alts, []) stk names cs
      else if c = CHR '')'' then
        (case stk of
           [] \<Rightarrow> Inl (Re_error ''unbalanced parenthesis'')
         | (nm', alts', items') # stk' \<Rightarrow>
             parse (nm', alts', Group nm (close_frame alts items) # items') stk' names cs)
      else if c = CHR ''('' then
        (case cs of
           [] \<Rightarrow> parse (None, [], []) ((nm, alts, items) # stk) names cs
         | q # cs' \<Rightarrow>
             if q \<noteq> CHR ''?'' then parse (None, [], []) ((nm, alts, items) # stk) names cs
             else if take 2 cs' \<noteq> ''P<'' then Inl (Unsupported ''extension notation'')
             else
               (case dropWhile (\<lambda>x. x \<noteq> CHR ''>'') (drop 2 cs') of
                  [] \<Rightarrow> Inl (Unsupported ''group name'')
                | gt # rest \<Rightarrow>
                    if \<not> isidentifier (takeWhile (\<lambda>x. x \<noteq> CHR ''>'') (drop 2 cs'))
                    then Inl (Unsupported ''group name'')
                    else if takeWhile (\<lambda>x. x \<noteq> CHR ''>'') (drop 2 cs') \<in> set names
                    then Inl (Re_error ''redefinition of group name'')
                    else parse (Some (takeWhile (\<lambda>x. x \<noteq> CHR ''>'') (drop 2 cs')), [], [])
                           ((nm, alts, items) # stk)
                           (takeWhile (\<lambda>x. x \<noteq> CHR ''>'') (drop 2 cs') # names) rest))
      else if c = CHR ''['' then
        (case dropWhile (\<lambda>x. x \<noteq> CHR '']'') cs of
           [] \<Rightarrow> Inl (Re_error ''unterminated character set'')
         | br # rest \<Rightarrow>
             if takeWhile (\<lambda>x. x \<noteq> CHR '']'') cs = []
                \<or> hd (takeWhile (\<lambda>x. x \<noteq> CHR '']'') cs) = CHR ''^''
                \<or> CHR 0x5C \<in> set (takeWhile (\<lambda>x. x \<noteq> CHR '']'') cs)
                \<or> CHR ''['' \<in> set (takeWhile (\<lambda>x. x \<noteq> CHR '']'') cs)
             then Inl (Unsupported ''character set'')
             else
               (case class_items (takeWhile (\<lambda>x. x \<noteq> CHR '']'') cs) of
                  Inl e \<Rightarrow> Inl e
                | Inr rs \<Rightarrow> parse (nm, alts, In rs # items) stk names rest))
      else if c = CHR ''*'' \<or> c = CHR ''+'' \<or> c = CHR ''?'' then
        (case items of
           [] \<Rightarrow> Inl (Re_error ''nothing to repeat'')
         | r # items' \<Rightarrow>
             if is_repeat r then Inl (Re_error ''multiple repeat'')
             else if cs \<noteq> [] \<and> (hd cs = CHR ''?'' \<or> hd cs = CHR ''+'')
             then Inl (Unsupported ''lazy or possessive repeat'')
             else if nullable r
             then Inl (Unsupported ''repeat of a pattern that matches the empty string'')
             else parse (nm, alts, repeat c r # items') stk names cs)
      else if c = CHR 0x5C \<or> c = CHR ''{'' \<or> c = CHR ''^'' \<or> c = CHR ''$''
      then Inl (Unsupported ''escape, counted repeat or anchor'')
      else if c = CHR ''.'' then parse (nm, alts, Any # items) stk names cs
      else parse (nm, alts, Lit c # items) stk names cs)"
  by pat_completeness auto

lemma length_after_dropWhile: "dropWhile P xs = y # ys \<Longrightarrow> length ys < length xs"
  using length_dropWhile_le [of P xs] by simp

termination parse
proof (relation "measure (\<lambda>(f, stk, names, s). length s)", goal_cases)
  case 1
  show ?case by simp
next
  case 6
  then show ?case by (auto dest!: length_after_dropWhile)
next
  case 7
  then show ?case by (auto dest!: length_after_dropWhile)
qed simp_all

text \<open>\<open>re.compile\<close>: the parsed pattern and the names of its named groups.\<close>

fun group_names :: "regex \<Rightarrow> string list" where
  "group_names (Seq a b) = group_names a @ group_names b"
| "group_names (Alt a b) = group_names a @ group_names b"
| "group_names (Star a) = group_names a"
| "group_names (Plus a) = group_names a"
| "group_names (Opt a) = group_names a"
| "group_names (Group (Some n) a) = n # group_names a"
| "group_names (Group None a) = group_names a"
| "group_names r = []"

record compiled =
  ast :: regex
  groupindex :: "string list"

definition re_compile :: "string \<Rightarrow> error + compiled" where
  "re_compile p =
     (case parse (None, [], []) [] [] p of
        Inl e \<Rightarrow> Inl e
      | Inr r \<Rightarrow> Inr \<lparr>ast = r, groupindex = group_names r\<rparr>)"

subsection \<open>Matching\<close>

text \<open>
  The matcher of \<open>re\<close> backtracks: it tries the alternatives of a pattern in a fixed order
  (a greedy repeat first tries one more round, an alternation its left branch) and returns
  the first that lets the whole pattern match. \<open>ms r (s, g)\<close> lists, in that order, every
  way \<open>r\<close> matches a prefix of \<open>s\<close>: what is left of \<open>s\<close>, and the named groups \<open>g\<close> with
  those set on the way. The first entry is the match \<open>re\<close> returns.
\<close>

type_synonym mstate = "string \<times> (string \<times> string) list"

definition in_set :: "(char \<times> char) list \<Rightarrow> char \<Rightarrow> bool" where
  "in_set rs c = list_ex (\<lambda>(lo, hi). lo \<le> c \<and> c \<le> hi) rs"

fun set_group :: "string option \<Rightarrow> string \<Rightarrow> mstate \<Rightarrow> mstate" where
  "set_group None s (s', g) = (s', g)"
| "set_group (Some n) s (s', g) = (s', AList.update n (take (length s - length s') s) g)"

function ms :: "regex \<Rightarrow> mstate \<Rightarrow> mstate list" where
  "ms Eps st = [st]"
| "ms (Lit c) (s, g) = (case s of [] \<Rightarrow> [] | x # xs \<Rightarrow> if x = c then [(xs, g)] else [])"
| "ms Any (s, g) = (case s of [] \<Rightarrow> [] | x # xs \<Rightarrow> [(xs, g)])"
| "ms (In rs) (s, g) = (case s of [] \<Rightarrow> [] | x # xs \<Rightarrow> if in_set rs x then [(xs, g)] else [])"
| "ms (Seq a b) st = concat (map (\<lambda>st'. ms b st') (ms a st))"
| "ms (Alt a b) st = ms a st @ ms b st"
| "ms (Opt a) st = ms a st @ [st]"
| "ms (Star a) st =
     concat (map (\<lambda>st'. if length (fst st') < length (fst st) then ms (Star a) st' else [])
                 (ms a st)) @ [st]"
| "ms (Plus a) st =
     concat (map (\<lambda>st'. if length (fst st') < length (fst st) then ms (Star a) st' else [])
                 (ms a st))"
| "ms (Group n a) (s, g) = map (set_group n s) (ms a (s, g))"
  by pat_completeness auto
termination
  by (relation "measures [\<lambda>(r, st). size r, \<lambda>(r, st). length (fst st),
                          \<lambda>(r, st). (case r of Plus a \<Rightarrow> 1 | _ \<Rightarrow> 0)]") auto

text \<open>\<open>pattern.match(data, pos)\<close> and \<open>pattern.search(data, pos)\<close>: a match object holds
  the span of the whole match and \<open>groupdict()\<close>, which has every named group of the
  pattern, with \<open>None\<close> for a group that took no part in the match.\<close>

record re_match =
  m_start :: nat
  m_end :: nat
  groupdict :: "(string \<times> string option) list"

definition match_here :: "compiled \<Rightarrow> nat \<Rightarrow> string \<Rightarrow> re_match option" where
  "match_here cre pos s =
     (case ms (ast cre) (s, []) of
        [] \<Rightarrow> None
      | (s', g) # _ \<Rightarrow>
          Some \<lparr>m_start = pos, m_end = pos + (length s - length s'),
                groupdict = map (\<lambda>n. (n, map_of g n)) (groupindex cre)\<rparr>)"

definition re_match_at :: "compiled \<Rightarrow> string \<Rightarrow> nat \<Rightarrow> re_match option" where
  "re_match_at cre data pos =
     (if pos \<le> length data then match_here cre pos (drop pos data) else None)"

fun scan :: "compiled \<Rightarrow> nat \<Rightarrow> string \<Rightarrow> re_match option" where
  "scan cre pos [] = match_here cre pos []"
| "scan cre pos (c # cs) =
     (case match_here cre pos (c # cs) of
        Some m \<Rightarrow> Some m
      | None \<Rightarrow> scan cre (Suc pos) cs)"

text \<open>\<open>Pattern.search(data, pos)\<close>, for a start that lies in the text or at its end, which is
  all the host's loop over the text passes. A start beyond the end, which \<open>re\<close> takes for the
  end, is outside this model: it gives \<open>None\<close>.\<close>

definition re_search :: "compiled \<Rightarrow> string \<Rightarrow> nat \<Rightarrow> re_match option" where
  "re_search cre data pos =
     (if pos \<le> length data then scan cre pos (drop pos data) else None)"

section \<open>The extension\<close>

subsection \<open>\<open>IconFontsPattern\<close>\<close>

text \<open>An \<open>xml.etree\<close> element: tag, attributes in the order they were set, text, children.\<close>

datatype element =
  Element (tag: string) (attrib: "(string \<times> string) list") (text_of: "string option")
    (children: "element list")

definition set_attr :: "string \<Rightarrow> string \<Rightarrow> element \<Rightarrow> element" where
  "set_attr k v el =
     Element (tag el) (AList.update k v (attrib el)) (text_of el) (children el)"

record IconFontsPattern =
  pattern :: string
  compiled_re :: compiled
  self_base :: string
  self_prefix :: string

text \<open>\<open>IconFontsPattern(pattern, md, base, prefix)\<close>: the constructor of the base class
  compiles the pattern, and \<open>re.error\<close> leaves it.\<close>

definition new_IconFontsPattern :: "string \<Rightarrow> string \<Rightarrow> string \<Rightarrow> error + IconFontsPattern" where
  "new_IconFontsPattern pat bs pre =
     (case re_compile pat of
        Inl e \<Rightarrow> Inl e
      | Inr cre \<Rightarrow>
          Inr \<lparr>pattern = pat, compiled_re = cre, self_base = bs, self_prefix = pre\<rparr>)"

text \<open>\<open>d[k]\<close> on a dictionary.\<close>

definition getitem :: "(string \<times> 'a) list \<Rightarrow> string \<Rightarrow> error + 'a" where
  "getitem d k = (case map_of d k of None \<Rightarrow> Inl (KeyError k) | Some v \<Rightarrow> Inr v)"

text \<open>\<open>handleMatch\<close>. The dictionary \<open>classes\<close> keeps its keys in the order they were first
  set, and \<open>classes.values()\<close> lists the values in that order.\<close>

definition handleMatch ::
  "IconFontsPattern \<Rightarrow> re_match \<Rightarrow> string \<Rightarrow> error + element \<times> nat \<times> nat" where
  "handleMatch self m data =
     (let match_dict = groupdict m;
          el = Element ''i'' [] None []
      in case getitem match_dict ''name'' of
           Inl e \<Rightarrow> Inl e
         | Inr name \<Rightarrow>
      let classes = [];
          classes = (if self_base self \<noteq> [] then AList.update ''base'' (self_base self) classes
                     else classes);
          classes = AList.update ''name'' (self_prefix self @ format name) classes
      in case getitem match_dict ''mod'' of
           Inl e \<Rightarrow> Inl e
         | Inr md \<Rightarrow>
      let classes =
            (case md of
               None \<Rightarrow> classes
             | Some v \<Rightarrow>
                 AList.update ''mod''
                   (str_join '' '' (map (\<lambda>c. self_prefix self @ c)
                                        (filter_None (str_split CHR '','' v))))
                   classes)
      in case getitem match_dict ''user_mod'' of
           Inl e \<Rightarrow> Inl e
         | Inr user_mod \<Rightarrow>
      let classes =
            (case user_mod of
               None \<Rightarrow> classes
             | Some v \<Rightarrow>
                 AList.update ''user_mod''
                   (str_join '' '' (filter_None (str_split CHR '','' v))) classes);
          el = set_attr ''class'' (str_join '' '' (map snd classes)) el;
          el = set_attr ''aria-hidden'' ''true'' el
      in Inr (el, m_start m, m_end m))"

definition ICON_RE :: string where
  "ICON_RE = ''(?P<name>[a-zA-Z0-9-]+)(:(?P<mod>[a-zA-Z0-9-]+(,[a-zA-Z0-9-]+)*)?(:(?P<user_mod>[a-zA-Z0-9-]+(,[a-zA-Z0-9-]+)*)?)?)?;''"

text \<open>The host's inline pass asks the processor's compiled pattern for its first match at
  or after \<open>startIndex\<close> and hands that match to \<open>handleMatch\<close>; with no match the text is
  left as it is.\<close>

definition applyPattern ::
  "IconFontsPattern \<Rightarrow> string \<Rightarrow> nat \<Rightarrow> (error + element \<times> nat \<times> nat) option" where
  "applyPattern p data startIndex =
     (case re_search (compiled_re p) data startIndex of
        None \<Rightarrow> None
      | Some m \<Rightarrow> Some (handleMatch p m data))"

subsection \<open>\<open>IconFontsExtension\<close>\<close>

text \<open>The configuration: \<open>prefix_base_pairs\<close> is a dictionary, here its items in the order
  \<open>items()\<close> yields them.\<close>

record config =
  prefix :: string
  base :: string
  prefix_base_pairs :: "(string \<times> string) list"

definition default_config :: config where
  "default_config = \<lparr>prefix = ''icon-'', base = [], prefix_base_pairs = []\<rparr>"

text \<open>The registry of inline processors \<open>md.inlinePatterns\<close>: name, item and priority, in
  the order of registration. \<open>register\<close> of the host library replaces an entry already
  registered under the same name and raises nothing.\<close>

type_synonym registry = "(string \<times> IconFontsPattern \<times> int) list"

definition register :: "IconFontsPattern \<Rightarrow> string \<Rightarrow> int \<Rightarrow> registry \<Rightarrow> registry" where
  "register item name priority reg =
     filter (\<lambda>e. fst e \<noteq> name) reg @ [(name, item, priority)]"

fun register_pairs :: "(string \<times> string) list \<Rightarrow> registry \<Rightarrow> error + registry" where
  "register_pairs [] reg = Inr reg"
| "register_pairs ((pre, bs) # ps) reg =
     (case new_IconFontsPattern (''&'' @ pre @ ICON_RE) bs pre of
        Inl e \<Rightarrow> Inl e
      | Inr p \<Rightarrow> register_pairs ps (register p (''iconfonts_'' @ rstrip CHR ''-'' pre) 175 reg))"

definition extendMarkdown :: "config \<Rightarrow> registry \<Rightarrow> error + registry" where
  "extendMarkdown self inlinePatterns =
     (case new_IconFontsPattern (''&'' @ prefix self @ ICON_RE) (base self) (prefix self) of
        Inl e \<Rightarrow> Inl e
      | Inr p \<Rightarrow>
          register_pairs (prefix_base_pairs self) (register p ''iconfonts'' 175 inlinePatterns))"

section \<open>What the pattern of a binding compiles to\<close>

text \<open>The set \<open>[a-zA-Z0-9-]\<close>, the comma-separated list of runs of it, and the three items
  \<open>ICON_RE\<close> consists of: the name, the optional modifier blocks, the closing \<open>;\<close>.\<close>

definition icon_chars :: regex where
  "icon_chars =
     In [(CHR ''a'', CHR ''z''), (CHR ''A'', CHR ''Z''), (CHR ''0'', CHR ''9''),
         (CHR ''-'', CHR ''-'')]"

definition mods_re :: regex where
  "mods_re = Seq (Plus icon_chars) (Star (Group None (Seq (Lit CHR '','') (Plus icon_chars))))"

definition icon_items :: "regex list" where
  "icon_items =
     [Group (Some ''name'') (Plus icon_chars),
      Opt (Group None (Seq (Lit CHR '':'')
        (Seq (Opt (Group (Some ''mod'') mods_re))
             (Opt (Group None (Seq (Lit CHR '':'') (Opt (Group (Some ''user_mod'') mods_re)))))))),
      Lit CHR '';'']"

text \<open>A character that stands for itself in a pattern.\<close>

definition plain_char :: "char \<Rightarrow> bool" where
  "plain_char c = (c \<notin> set ''.[{()*+?^$|'' \<and> c \<noteq> CHR 0x5C)"

definition icon_char :: "char \<Rightarrow> bool" where
  "icon_char c =
     ((CHR ''a'' \<le> c \<and> c \<le> CHR ''z'') \<or> (CHR ''A'' \<le> c \<and> c \<le> CHR ''Z'') \<or>
      (CHR ''0'' \<le> c \<and> c \<le> CHR ''9'') \<or> c = CHR ''-'')"

text \<open>A name is a non-empty run of \<open>[a-zA-Z0-9-]\<close>; a modifier block is a comma-separated
  list of such runs.\<close>

definition valid_name :: "string \<Rightarrow> bool" where
  "valid_name s = (s \<noteq> [] \<and> list_all icon_char s)"

definition valid_mods :: "string \<Rightarrow> bool" where
  "valid_mods s = list_all valid_name (str_split CHR '','' s)"

text \<open>The class string as the specification describes it: the slots base, prefix and name,
  prefixed modifiers, user modifiers, in this order; the base only when it is not empty, a
  modifier slot only when its block was captured.\<close>

definition class_segments ::
  "string \<Rightarrow> string \<Rightarrow> string option \<Rightarrow> string option \<Rightarrow> string option \<Rightarrow> string list" where
  "class_segments bs pre name md um =
     (if bs \<noteq> [] then [bs] else []) @ [pre @ format name] @
     (case md of
        None \<Rightarrow> []
      | Some v \<Rightarrow> [str_join '' '' (map (\<lambda>c. pre @ c) (filter_None (str_split CHR '','' v)))]) @
     (case um of
        None \<Rightarrow> []
      | Some v \<Rightarrow> [str_join '' '' (filter_None (str_split CHR '','' v))])"

text \<open>The words a pattern can match, and the named groups of a pattern with their bodies.\<close>

inductive_set star :: "string set \<Rightarrow> string set" for A :: "string set" where
  star_Nil: "[] \<in> star A"
| star_App: "u \<in> A \<Longrightarrow> v \<in> star A \<Longrightarrow> u @ v \<in> star A"

fun lang :: "regex \<Rightarrow> string set" where
  "lang Eps = {[]}"
| "lang (Lit c) = {[c]}"
| "lang Any = {[c] | c. True}"
| "lang (In rs) = {[c] | c. in_set rs c}"
| "lang (Seq a b) = {u @ v | u v. u \<in> lang a \<and> v \<in> lang b}"
| "lang (Alt a b) = lang a \<union> lang b"
| "lang (Star a) = star (lang a)"
| "lang (Plus a) = {u @ v | u v. u \<in> lang a \<and> v \<in> star (lang a)}"
| "lang (Opt a) = insert [] (lang a)"
| "lang (Group n a) = lang a"

fun named_bodies :: "regex \<Rightarrow> (string \<times> regex) list" where
  "named_bodies (Seq a b) = named_bodies a @ named_bodies b"
| "named_bodies (Alt a b) = named_bodies a @ named_bodies b"
| "named_bodies (Star a) = named_bodies a"
| "named_bodies (Plus a) = named_bodies a"
| "named_bodies (Opt a) = named_bodies a"
| "named_bodies (Group (Some n) a) = (n, a) # named_bodies a"
| "named_bodies (Group None a) = named_bodies a"
| "named_bodies r = []"

text \<open>The pattern of a binding whose marker is made of plain characters: the characters
  of \<open>&\<close> and the marker, then the items of \<open>ICON_RE\<close>, with its three groups.\<close>

definition icon_pattern :: "string \<Rightarrow> compiled" where
  "icon_pattern marker =
     \<lparr>ast = mk_seq (map Lit (''&'' @ marker) @ icon_items),
      groupindex = [''name'', ''mod'', ''user_mod'']\<rparr>"

text \<open>The characters between the marker and the closing \<open>;\<close> of a token.\<close>

definition token_char :: "char \<Rightarrow> bool" where
  "token_char c = (icon_char c \<or> c = CHR '':'' \<or> c = CHR '','')"

text \<open>What the specification asks of a class string: none of the token delimiters \<open>&\<close> and
  \<open>;\<close> in it, and no two spaces next to each other. A piece of a class string is tight when
  it is not empty, neither starts nor ends with a space and has no two spaces next to each
  other.\<close>

definition no_delims :: "string \<Rightarrow> bool" where
  "no_delims s = (CHR ''&'' \<notin> set s \<and> CHR '';'' \<notin> set s)"

fun no_double_space :: "string \<Rightarrow> bool" where
  "no_double_space (a # b # cs) =
     (\<not> (a = CHR '' '' \<and> b = CHR '' '') \<and> no_double_space (b # cs))"
| "no_double_space cs = True"

definition tight :: "string \<Rightarrow> bool" where
  "tight s = (s \<noteq> [] \<and> hd s \<noteq> CHR '' '' \<and> last s \<noteq> CHR '' '' \<and> no_double_space s)"

declare ms.simps(8) [simp del]

section \<open>Lemmas\<close>

subsection \<open>\<open>handleMatch\<close>\<close>

lemma handleMatch_eq:
  assumes "map_of (groupdict m) ''name'' = Some name"
    and "map_of (groupdict m) ''mod'' = Some md"
    and "map_of (groupdict m) ''user_mod'' = Some um"
  shows "handleMatch self m data =
           Inr (Element ''i''
                  [(''class'', str_join '' ''
                      (class_segments (self_base self) (self_prefix self) name md um)),
                   (''aria-hidden'', ''true'')] None [],
                m_start m, m_end m)"
  using assms
  by (cases md; cases um)
     (simp_all add: handleMatch_def getitem_def set_attr_def class_segments_def)

subsection \<open>The matcher\<close>

lemma ms_Star_cases:
  assumes "x \<in> set (ms (Star a) st)"
  obtains "x = st"
  | y where "y \<in> set (ms a st)" "length (fst y) < length (fst st)" "x \<in> set (ms (Star a) y)"
  using assms by (auto simp: ms.simps(8)[of a st] split: if_splits)

lemma ms_Plus_cases:
  assumes "x \<in> set (ms (Plus a) st)"
  obtains y where "y \<in> set (ms a st)" "length (fst y) < length (fst st)"
    "x \<in> set (ms (Star a) y)"
  using assms by (auto split: if_splits)

lemma ms_Seq_cases:
  assumes "x \<in> set (ms (Seq a b) st)"
  obtains y where "y \<in> set (ms a st)" "x \<in> set (ms b y)"
  using assms by auto

text \<open>Every way a pattern matches takes a word of its language off the front of the text.\<close>

lemma ms_lang_aux:
  "x \<in> set (ms r st) \<Longrightarrow> \<exists>w. w \<in> lang r \<and> fst st = w @ fst x"
proof (induction r st arbitrary: x rule: ms.induct)
  case (1 st)
  then show ?case by simp
next
  case (2 c s g)
  then show ?case by (auto split: list.splits if_splits)
next
  case (3 s g)
  then show ?case by (auto split: list.splits if_splits)
next
  case (4 rs s g)
  then show ?case by (auto split: list.splits if_splits)
next
  case (5 a b st)
  from "5.prems" obtain y where a: "y \<in> set (ms a st)" and b: "x \<in> set (ms b y)"
    by (rule ms_Seq_cases)
  from "5.IH"(1)[OF a] obtain w1 where "w1 \<in> lang a" "fst st = w1 @ fst y" by blast
  moreover from "5.IH"(2)[OF a b] obtain w2 where "w2 \<in> lang b" "fst y = w2 @ fst x" by blast
  ultimately have "w1 @ w2 \<in> lang (Seq a b)" "fst st = (w1 @ w2) @ fst x" by auto
  then show ?case by blast
next
  case (6 a b st)
  from "6.prems" consider "x \<in> set (ms a st)" | "x \<in> set (ms b st)" by auto
  then show ?case
  proof cases
    case 1
    from "6.IH"(1)[OF 1] show ?thesis by auto
  next
    case 2
    from "6.IH"(2)[OF 2] show ?thesis by auto
  qed
next
  case (7 a st)
  from "7.prems" consider "x \<in> set (ms a st)" | "x = st" by auto
  then show ?case
  proof cases
    case 1
    from "7.IH"[OF 1] show ?thesis by auto
  next
    case 2
    then show ?thesis by simp
  qed
next
  case (8 a st)
  from "8.prems" show ?case
  proof (cases rule: ms_Star_cases)
    case 1
    then show ?thesis by (auto intro: star_Nil)
  next
    case (2 y)
    from "8.IH"(1)[OF 2(1)] obtain w1 where "w1 \<in> lang a" "fst st = w1 @ fst y" by blast
    moreover from "8.IH"(2)[OF 2(1) 2(2) 2(3)]
    obtain w2 where "w2 \<in> star (lang a)" "fst y = w2 @ fst x" by auto
    ultimately have "w1 @ w2 \<in> lang (Star a)" "fst st = (w1 @ w2) @ fst x"
      by (auto intro: star_App)
    then show ?thesis by blast
  qed
next
  case (9 a st)
  from "9.prems" obtain y where a: "y \<in> set (ms a st)"
    and lt: "length (fst y) < length (fst st)"
    and b: "x \<in> set (ms (Star a) y)" by (rule ms_Plus_cases)
  from "9.IH"(1)[OF a] obtain w1 where "w1 \<in> lang a" "fst st = w1 @ fst y" by blast
  moreover from "9.IH"(2)[OF a lt b]
  obtain w2 where "w2 \<in> star (lang a)" "fst y = w2 @ fst x" by auto
  ultimately have "w1 @ w2 \<in> lang (Plus a)" "fst st = (w1 @ w2) @ fst x" by auto
  then show ?case by blast
next
  case (10 n a s g)
  then show ?case by (cases n) auto
qed

lemma ms_lang: "(s', g') \<in> set (ms r (s, g)) \<Longrightarrow> \<exists>w. w \<in> lang r \<and> s = w @ s'"
  using ms_lang_aux [of "(s', g')" r "(s, g)"] by simp

lemma ms_length: "(s', g') \<in> set (ms r (s, g)) \<Longrightarrow> length s' \<le> length s"
  by (auto dest: ms_lang)

text \<open>A named group that is set after a match holds a word of the body of a group of that
  name, unless it was set before.\<close>

lemma ms_groups_aux:
  "x \<in> set (ms r st) \<Longrightarrow> map_of (snd x) n = Some v \<Longrightarrow>
     map_of (snd st) n = Some v \<or> (\<exists>a. (n, a) \<in> set (named_bodies r) \<and> v \<in> lang a)"
proof (induction r st arbitrary: x rule: ms.induct)
  case (1 st)
  then show ?case by simp
next
  case (2 c s g)
  then show ?case by (auto split: list.splits if_splits)
next
  case (3 s g)
  then show ?case by (auto split: list.splits if_splits)
next
  case (4 rs s g)
  then show ?case by (auto split: list.splits if_splits)
next
  case (5 a b st)
  from "5.prems"(1) obtain y where a: "y \<in> set (ms a st)" and b: "x \<in> set (ms b y)"
    by (rule ms_Seq_cases)
  from "5.IH"(2)[OF a b "5.prems"(2)] "5.IH"(1)[OF a]
  show ?case by auto
next
  case (6 a b st)
  from "6.prems"(1) consider "x \<in> set (ms a st)" | "x \<in> set (ms b st)" by auto
  then show ?case
  proof cases
    case 1
    from "6.IH"(1)[OF 1 "6.prems"(2)] show ?thesis by auto
  next
    case 2
    from "6.IH"(2)[OF 2 "6.prems"(2)] show ?thesis by auto
  qed
next
  case (7 a st)
  from "7.prems"(1) consider "x \<in> set (ms a st)" | "x = st" by auto
  then show ?case
  proof cases
    case 1
    from "7.IH"[OF 1 "7.prems"(2)] show ?thesis by auto
  next
    case 2
    with "7.prems"(2) show ?thesis by simp
  qed
next
  case (8 a st)
  from "8.prems"(1) show ?case
  proof (cases rule: ms_Star_cases)
    case 1
    with "8.prems"(2) show ?thesis by simp
  next
    case (2 y)
    from "8.IH"(2)[OF 2(1) 2(2) 2(3) "8.prems"(2)] "8.IH"(1)[OF 2(1)]
    show ?thesis by auto
  qed
next
  case (9 a st)
  from "9.prems"(1) obtain y where a: "y \<in> set (ms a st)"
    and lt: "length (fst y) < length (fst st)"
    and b: "x \<in> set (ms (Star a) y)" by (rule ms_Plus_cases)
  from "9.IH"(2)[OF a lt b "9.prems"(2)] "9.IH"(1)[OF a]
  show ?case by auto
next
  case (10 nm a s g)
  show ?case
  proof (cases nm)
    case None
    with "10.prems" "10.IH" show ?thesis by auto
  next
    case (Some k)
    with "10.prems"(1) obtain s' g1 where a: "(s', g1) \<in> set (ms a (s, g))"
      and x: "x = (s', AList.update k (take (length s - length s') s) g1)" by auto
    from ms_lang[OF a] obtain w where w: "w \<in> lang a" "s = w @ s'" by blast
    then have tk: "take (length s - length s') s = w" by simp
    show ?thesis
    proof (cases "n = k")
      case True
      with "10.prems"(2) x tk have "v = w" by (simp add: update_conv')
      with w True Some show ?thesis by auto
    next
      case False
      with "10.prems"(2) x have "map_of (snd (s', g1)) n = Some v" by (simp add: update_conv')
      from "10.IH"[OF a this] Some show ?thesis by auto
    qed
  qed
qed

lemma ms_groups:
  "(s', g') \<in> set (ms r (s, [])) \<Longrightarrow> map_of g' n = Some v \<Longrightarrow>
     \<exists>a. (n, a) \<in> set (named_bodies r) \<and> v \<in> lang a"
  using ms_groups_aux [of "(s', g')" r "(s, [])" n v] by simp

lemma ms_keeps_aux:
  "x \<in> set (ms r st) \<Longrightarrow> map_of (snd st) n \<noteq> None \<Longrightarrow> map_of (snd x) n \<noteq> None"
proof (induction r st arbitrary: x rule: ms.induct)
  case (1 st)
  then show ?case by simp
next
  case (2 c s g)
  then show ?case by (auto split: list.splits if_splits)
next
  case (3 s g)
  then show ?case by (auto split: list.splits if_splits)
next
  case (4 rs s g)
  then show ?case by (auto split: list.splits if_splits)
next
  case (5 a b st)
  from "5.prems"(1) obtain y where a: "y \<in> set (ms a st)" and b: "x \<in> set (ms b y)"
    by (rule ms_Seq_cases)
  from "5.IH"(2)[OF a b] "5.IH"(1)[OF a "5.prems"(2)] show ?case by simp
next
  case (6 a b st)
  from "6.prems"(1) consider "x \<in> set (ms a st)" | "x \<in> set (ms b st)" by auto
  then show ?case
  proof cases
    case 1
    from "6.IH"(1)[OF 1 "6.prems"(2)] show ?thesis .
  next
    case 2
    from "6.IH"(2)[OF 2 "6.prems"(2)] show ?thesis .
  qed
next
  case (7 a st)
  from "7.prems"(1) consider "x \<in> set (ms a st)" | "x = st" by auto
  then show ?case
  proof cases
    case 1
    from "7.IH"[OF 1 "7.prems"(2)] show ?thesis .
  next
    case 2
    with "7.prems"(2) show ?thesis by simp
  qed
next
  case (8 a st)
  from "8.prems"(1) show ?case
  proof (cases rule: ms_Star_cases)
    case 1
    with "8.prems"(2) show ?thesis by simp
  next
    case (2 y)
    from "8.IH"(2)[OF 2(1) 2(2) 2(3)] "8.IH"(1)[OF 2(1) "8.prems"(2)]
    show ?thesis by simp
  qed
next
  case (9 a st)
  from "9.prems"(1) obtain y where a: "y \<in> set (ms a st)"
    and lt: "length (fst y) < length (fst st)"
    and b: "x \<in> set (ms (Star a) y)" by (rule ms_Plus_cases)
  from "9.IH"(2)[OF a lt b] "9.IH"(1)[OF a "9.prems"(2)] show ?case by simp
next
  case (10 nm a s g)
  then show ?case by (cases nm) (auto simp: update_conv')
qed

lemma ms_Group_sets:
  "x \<in> set (ms (Group (Some n) a) st) \<Longrightarrow> map_of (snd x) n \<noteq> None"
  by (cases st) (auto simp: update_conv')

lemma ms_mk_seq_Cons:
  "ms (mk_seq (r # rs)) st = concat (map (\<lambda>y. ms (mk_seq rs) y) (ms r st))"
  by (cases rs) simp_all

lemma ms_lits:
  "ms (mk_seq (map Lit p @ rs)) (s, g) =
     (if take (length p) s = p then ms (mk_seq rs) (drop (length p) s, g) else [])"
proof (induction p arbitrary: s)
  case Nil
  then show ?case by simp
next
  case (Cons c p)
  show ?case
  proof (cases s)
    case Nil
    then show ?thesis by (simp add: ms_mk_seq_Cons)
  next
    case (Cons x xs)
    with Cons.IH [of xs] show ?thesis by (simp add: ms_mk_seq_Cons)
  qed
qed

subsection \<open>The parser on a plain marker and on \<open>ICON_RE\<close>\<close>

lemma parse_plain:
  "list_all plain_char w \<Longrightarrow>
     parse (nm, alts, items) stk names (w @ rest) =
     parse (nm, alts, rev (map Lit w) @ items) stk names rest"
proof (induction w arbitrary: items)
  case Nil
  then show ?case by simp
next
  case (Cons c w)
  from Cons.prems have c: "plain_char c" and w: "list_all plain_char w" by simp_all
  from c have "parse (nm, alts, items) stk names ((c # w) @ rest) =
      parse (nm, alts, Lit c # items) stk names (w @ rest)"
    by (simp add: plain_char_def)
  with Cons.IH [OF w, of "Lit c # items"] show ?case by simp
qed

lemma parse_ICON_RE:
  "parse (nm, alts, items) [] [] ICON_RE = Inr (close_frame alts (rev icon_items @ items))"
  by (simp add: ICON_RE_def close_frame_def repeat_def isidentifier_def icon_items_def
      mods_re_def icon_chars_def)

lemma group_names_mk_seq: "group_names (mk_seq rs) = concat (map group_names rs)"
  by (induction rs rule: mk_seq.induct) simp_all

lemma named_bodies_mk_seq: "named_bodies (mk_seq rs) = concat (map named_bodies rs)"
  by (induction rs rule: mk_seq.induct) simp_all

lemma re_compile_plain:
  assumes "list_all plain_char marker"
  shows "re_compile (''&'' @ marker @ ICON_RE) = Inr (icon_pattern marker)"
proof -
  have "list_all plain_char (''&'' @ marker)"
    using assms by (simp add: plain_char_def)
  from parse_plain [OF this, of None "[]" "[]" "[]" "[]" ICON_RE]
  have "parse (None, [], []) [] [] (''&'' @ marker @ ICON_RE) =
      Inr (mk_seq (map Lit (''&'' @ marker) @ icon_items))"
    by (simp add: parse_ICON_RE close_frame_def rev_map)
  then show ?thesis
    by (simp add: re_compile_def icon_pattern_def group_names_mk_seq icon_items_def
        mods_re_def icon_chars_def)
qed

lemma new_IconFontsPattern_plain:
  assumes "list_all plain_char marker"
  shows "new_IconFontsPattern (''&'' @ marker @ ICON_RE) bs marker =
           Inr \<lparr>pattern = ''&'' @ marker @ ICON_RE, compiled_re = icon_pattern marker,
                self_base = bs, self_prefix = marker\<rparr>"
  using re_compile_plain [OF assms] by (simp add: new_IconFontsPattern_def)

subsection \<open>Searching\<close>

lemma match_here_start: "match_here cre pos s = Some m \<Longrightarrow> m_start m = pos"
  by (auto simp: match_here_def split: list.splits)

lemma match_here_end:
  assumes "match_here cre pos s = Some m"
  shows "pos \<le> m_end m \<and> m_end m \<le> pos + length s"
proof -
  from assms obtain s' g' rest where ms: "ms (ast cre) (s, []) = (s', g') # rest"
    and m: "m_end m = pos + (length s - length s')"
    by (auto simp: match_here_def split: list.splits)
  from ms have "(s', g') \<in> set (ms (ast cre) (s, []))" by simp
  from ms_length [OF this] m show ?thesis by simp
qed

lemma scan_Some:
  "scan cre pos s = Some m \<Longrightarrow>
     \<exists>k. k \<le> length s \<and> match_here cre (pos + k) (drop k s) = Some m \<and>
         (\<forall>j. j < k \<longrightarrow> match_here cre (pos + j) (drop j s) = None)"
proof (induction s arbitrary: pos)
  case Nil
  then show ?case by simp
next
  case (Cons c cs)
  show ?case
  proof (cases "match_here cre pos (c # cs)")
    case (Some m')
    with Cons.prems have "match_here cre (pos + 0) (drop 0 (c # cs)) = Some m" by simp
    then show ?thesis by (intro exI [of _ 0]) simp
  next
    case None
    with Cons.prems have "scan cre (Suc pos) cs = Some m" by simp
    from Cons.IH [OF this] obtain k where k: "k \<le> length cs"
      "match_here cre (Suc pos + k) (drop k cs) = Some m"
      "\<forall>j. j < k \<longrightarrow> match_here cre (Suc pos + j) (drop j cs) = None" by blast
    have "\<forall>j. j < Suc k \<longrightarrow> match_here cre (pos + j) (drop j (c # cs)) = None"
    proof (intro allI impI)
      fix j assume "j < Suc k"
      then show "match_here cre (pos + j) (drop j (c # cs)) = None"
        using None k(3) by (cases j) auto
    qed
    with k(1,2) show ?thesis by (intro exI [of _ "Suc k"]) simp
  qed
qed

lemma scan_None:
  "scan cre pos s = None \<Longrightarrow> k \<le> length s \<Longrightarrow> match_here cre (pos + k) (drop k s) = None"
proof (induction s arbitrary: pos k)
  case Nil
  then show ?case by simp
next
  case (Cons c cs)
  from Cons.prems(1) have here: "match_here cre pos (c # cs) = None"
    and rest: "scan cre (Suc pos) cs = None" by (auto split: option.splits)
  show ?case
  proof (cases k)
    case 0
    with here show ?thesis by simp
  next
    case (Suc k')
    with Cons.prems(2) Cons.IH [OF rest, of k'] show ?thesis by simp
  qed
qed

lemma scan_all_None:
  "(\<And>k. k \<le> length s \<Longrightarrow> match_here cre (pos + k) (drop k s) = None) \<Longrightarrow>
     scan cre pos s = None"
proof (induction s arbitrary: pos)
  case Nil
  from Nil [of 0] show ?case by simp
next
  case (Cons c cs)
  from Cons.prems [of 0] have here: "match_here cre pos (c # cs) = None" by simp
  have "scan cre (Suc pos) cs = None"
  proof (rule Cons.IH)
    fix k assume "k \<le> length cs"
    with Cons.prems [of "Suc k"] show "match_here cre (Suc pos + k) (drop k cs) = None"
      by simp
  qed
  with here show ?case by simp
qed

text \<open>A match found by a search from \<open>i\<close> is the match at its own start, which is the first
  position from \<open>i\<close> on where the pattern matches; its span lies in the text.\<close>

lemma re_search_Some:
  assumes "re_search cre data i = Some m"
  shows "i \<le> m_start m \<and> m_start m \<le> m_end m \<and> m_end m \<le> length data \<and>
         re_match_at cre data (m_start m) = Some m \<and>
         (\<forall>j. i \<le> j \<and> j < m_start m \<longrightarrow> re_match_at cre data j = None)"
proof -
  from assms have i: "i \<le> length data" and sc: "scan cre i (drop i data) = Some m"
    by (auto simp: re_search_def split: if_splits)
  from scan_Some [OF sc] obtain k where k: "k \<le> length data - i"
    "match_here cre (i + k) (drop (i + k) data) = Some m"
    "\<forall>j. j < k \<longrightarrow> match_here cre (i + j) (drop (i + j) data) = None"
    by (auto simp: add.commute)
  from match_here_start [OF k(2)] have st: "m_start m = i + k" .
  from match_here_end [OF k(2)] i k(1) have en: "i + k \<le> m_end m" "m_end m \<le> length data"
    by auto
  have "\<forall>j. i \<le> j \<and> j < m_start m \<longrightarrow> re_match_at cre data j = None"
  proof (intro allI impI)
    fix j assume j: "i \<le> j \<and> j < m_start m"
    with st have "j - i < k" by auto
    with k(3) have "match_here cre (i + (j - i)) (drop (i + (j - i)) data) = None" by blast
    with j show "re_match_at cre data j = None" by (simp add: re_match_at_def)
  qed
  with st en k(1,2) i show ?thesis by (simp add: re_match_at_def)
qed

lemma re_search_None:
  assumes "re_search cre data i = None" and "i \<le> j" and "j \<le> length data"
  shows "re_match_at cre data j = None"
proof -
  from assms have sc: "scan cre i (drop i data) = None"
    by (simp add: re_search_def)
  from scan_None [OF sc, of "j - i"] assms(2,3) show ?thesis
    by (simp add: re_match_at_def)
qed

subsection \<open>The words of \<open>ICON_RE\<close>\<close>

lemma in_set_icon [simp]:
  "in_set [(CHR ''a'', CHR ''z''), (CHR ''A'', CHR ''Z''), (CHR ''0'', CHR ''9''),
           (CHR ''-'', CHR ''-'')] c = icon_char c"
  by (auto simp: in_set_def icon_char_def)

lemma icon_char_not_delim:
  "icon_char c \<Longrightarrow>
     c \<noteq> CHR '','' \<and> c \<noteq> CHR '';'' \<and> c \<noteq> CHR '':'' \<and> c \<noteq> CHR ''&'' \<and> c \<noteq> CHR '' ''"
  by (auto simp: icon_char_def)

lemma token_char_not_semicolon: "token_char c \<Longrightarrow> c \<noteq> CHR '';''"
  by (auto simp: token_char_def icon_char_def)

lemma star_icon_chars: "w \<in> star (lang icon_chars) \<longleftrightarrow> list_all icon_char w"
proof
  assume "w \<in> star (lang icon_chars)"
  then show "list_all icon_char w"
    by (induction rule: star.induct) (auto simp: icon_chars_def)
next
  assume "list_all icon_char w"
  then show "w \<in> star (lang icon_chars)"
  proof (induction w)
    case Nil
    show ?case by (rule star_Nil)
  next
    case (Cons c w)
    then have "[c] \<in> lang icon_chars" "w \<in> star (lang icon_chars)"
      by (auto simp: icon_chars_def)
    then have "[c] @ w \<in> star (lang icon_chars)" by (rule star_App)
    then show ?case by simp
  qed
qed

lemma lang_Plus_icon: "w \<in> lang (Plus icon_chars) \<longleftrightarrow> valid_name w"
proof
  assume "w \<in> lang (Plus icon_chars)"
  then obtain u v where w: "w = u @ v" and u: "u \<in> lang icon_chars"
    and v: "v \<in> star (lang icon_chars)" by auto
  from u obtain c where "u = [c]" "icon_char c" by (auto simp: icon_chars_def)
  with w v show "valid_name w" by (simp add: valid_name_def star_icon_chars)
next
  assume "valid_name w"
  then obtain c v where w: "w = [c] @ v" and c: "icon_char c" and v: "list_all icon_char v"
    by (cases w) (auto simp: valid_name_def)
  from c have "[c] \<in> lang icon_chars" by (simp add: icon_chars_def)
  moreover from v have "v \<in> star (lang icon_chars)" by (simp add: star_icon_chars)
  ultimately show "w \<in> lang (Plus icon_chars)" unfolding w lang.simps by blast
qed

lemma lang_Seq_iff: "w \<in> lang (Seq a b) \<longleftrightarrow> (\<exists>u v. w = u @ v \<and> u \<in> lang a \<and> v \<in> lang b)"
  by simp

lemma lang_Opt_iff: "w \<in> lang (Opt a) \<longleftrightarrow> w = [] \<or> w \<in> lang a"
  by simp

lemma lang_Lit_iff: "w \<in> lang (Lit c) \<longleftrightarrow> w = [c]"
  by simp

lemma lang_Group_eq: "lang (Group n a) = lang a"
  by simp

lemma lang_Star_eq: "lang (Star a) = star (lang a)"
  by simp

lemma lang_mk_seq_Cons:
  "w \<in> lang (mk_seq (r # rs)) \<longleftrightarrow> (\<exists>u v. w = u @ v \<and> u \<in> lang r \<and> v \<in> lang (mk_seq rs))"
  by (cases rs) simp_all

lemma lang_lits:
  "w \<in> lang (mk_seq (map Lit p @ rs)) \<longleftrightarrow> (\<exists>v. w = p @ v \<and> v \<in> lang (mk_seq rs))"
proof (induction p arbitrary: w)
  case Nil
  show ?case by simp
next
  case (Cons c p)
  show ?case by (auto simp: lang_mk_seq_Cons Cons.IH)
qed

declare lang.simps [simp del]

lemma str_split_no_sep: "sep \<notin> set u \<Longrightarrow> str_split sep u = [u]"
  by (induction u) auto

lemma str_split_append: "sep \<notin> set u \<Longrightarrow> str_split sep (u @ sep # v) = u # str_split sep v"
  by (induction u) auto

lemma valid_name_no_comma: "valid_name u \<Longrightarrow> CHR '','' \<notin> set u"
  by (auto simp: valid_name_def list_all_iff dest: icon_char_not_delim)

lemma valid_name_token: "valid_name u \<Longrightarrow> list_all token_char u"
  by (auto simp: valid_name_def token_char_def list_all_iff)

lemma lang_comma_run:
  "x \<in> lang (Group None (Seq (Lit CHR '','') (Plus icon_chars))) \<longleftrightarrow>
     (\<exists>r. x = CHR '','' # r \<and> valid_name r)"
  by (auto simp: lang_Group_eq lang_Seq_iff lang_Lit_iff lang_Plus_icon)

lemma star_mods_tail:
  "t \<in> star (lang (Group None (Seq (Lit CHR '','') (Plus icon_chars)))) \<Longrightarrow> valid_name u \<Longrightarrow>
     valid_mods (u @ t) \<and> list_all token_char t"
proof (induction arbitrary: u rule: star.induct)
  case star_Nil
  then show ?case by (simp add: valid_mods_def str_split_no_sep valid_name_no_comma)
next
  case (star_App x t)
  from star_App.hyps(1) obtain r where x: "x = CHR '','' # r" and r: "valid_name r"
    by (auto simp: lang_comma_run)
  have "token_char CHR '',''" by (simp add: token_char_def)
  with star_App.IH [OF r] star_App.prems x r valid_name_token [OF r] show ?case
    by (simp add: valid_mods_def str_split_append valid_name_no_comma)
qed

lemma lang_mods_re:
  assumes "v \<in> lang mods_re"
  shows "valid_mods v \<and> list_all token_char v"
proof -
  from assms obtain u t where "v = u @ t" "valid_name u"
    "t \<in> star (lang (Group None (Seq (Lit CHR '','') (Plus icon_chars))))"
    by (auto simp: mods_re_def lang_Seq_iff lang_Star_eq lang_Plus_icon)
  with star_mods_tail [of t u] show ?thesis by (simp add: valid_name_token)
qed

lemma lang_icon_items:
  assumes "w \<in> lang (mk_seq icon_items)"
  shows "\<exists>body. w = body @ '';'' \<and> list_all token_char body"
proof -
  from assms obtain n t where w: "w = n @ t @ '';''" and n: "valid_name n"
    and t: "t \<in> lang (icon_items ! 1)"
    by (auto simp: icon_items_def lang_Seq_iff lang_Group_eq lang_Plus_icon lang_Lit_iff)
  have "list_all token_char t"
    using t
    by (auto simp: icon_items_def lang_Opt_iff lang_Group_eq lang_Seq_iff lang_Lit_iff
        token_char_def dest!: lang_mods_re)
  with n w have "w = (n @ t) @ '';''" "list_all token_char (n @ t)"
    by (auto dest: valid_name_token)
  then show ?thesis by blast
qed

subsection \<open>Matches of the pattern of a binding with a plain marker\<close>

lemma named_bodies_lits: "concat (map (named_bodies \<circ> Lit) p) = []"
  by (induction p) simp_all

lemma named_bodies_icon:
  "named_bodies (mk_seq (map Lit p @ icon_items)) =
     [(''name'', Plus icon_chars), (''mod'', mods_re), (''user_mod'', mods_re)]"
  by (simp add: named_bodies_mk_seq named_bodies_lits icon_items_def mods_re_def icon_chars_def)

lemma icon_name_set:
  assumes "x \<in> set (ms (mk_seq (map Lit p @ icon_items)) (s, []))"
  shows "map_of (snd x) ''name'' \<noteq> None"
proof -
  have eq: "mk_seq icon_items =
      Seq (Group (Some ''name'') (Plus icon_chars)) (mk_seq (tl icon_items))"
    by (simp add: icon_items_def)
  from assms have "x \<in> set (ms (mk_seq icon_items) (drop (length p) s, []))"
    by (simp add: ms_lits split: if_splits)
  then have "x \<in> set (ms (Seq (Group (Some ''name'') (Plus icon_chars))
      (mk_seq (tl icon_items))) (drop (length p) s, []))"
    by (simp only: eq)
  then obtain y where y: "y \<in> set (ms (Group (Some ''name'') (Plus icon_chars))
        (drop (length p) s, []))"
    and x: "x \<in> set (ms (mk_seq (tl icon_items)) y)"
    by (rule ms_Seq_cases)
  from ms_Group_sets [OF y] have "map_of (snd y) ''name'' \<noteq> None" .
  from ms_keeps_aux [OF x this] show ?thesis .
qed

text \<open>Whatever the pattern of a plain marker matches is \<open>&\<close>, the marker, characters of a
  token and \<open>;\<close>; the name is a run of \<open>[a-zA-Z0-9-]\<close>, and a modifier block that was
  captured is a comma-separated list of such runs, none of them empty.\<close>

lemma match_here_icon:
  assumes "match_here (icon_pattern marker) pos s = Some m"
  shows "\<exists>nm md um body rest.
     s = ''&'' @ marker @ body @ '';'' @ rest \<and> list_all token_char body \<and>
     m_start m = pos \<and> m_end m = pos + length (''&'' @ marker @ body @ '';'') \<and>
     groupdict m = [(''name'', Some nm), (''mod'', md), (''user_mod'', um)] \<and>
     valid_name nm \<and> (md = None \<or> valid_mods (the md)) \<and> (um = None \<or> valid_mods (the um))"
proof -
  let ?r = "mk_seq (map Lit (''&'' @ marker) @ icon_items)"
  from assms obtain s' g' more where ms: "ms ?r (s, []) = (s', g') # more"
    and m: "m = \<lparr>m_start = pos, m_end = pos + (length s - length s'),
        groupdict = map (\<lambda>n. (n, map_of g' n)) [''name'', ''mod'', ''user_mod'']\<rparr>"
    by (auto simp: match_here_def icon_pattern_def split: list.splits)
  from ms have mem: "(s', g') \<in> set (ms ?r (s, []))" by simp
  from ms_lang [OF mem] obtain w where w: "w \<in> lang ?r" "s = w @ s'" by blast
  from w(1) obtain v where v: "w = (''&'' @ marker) @ v" "v \<in> lang (mk_seq icon_items)"
    unfolding lang_lits by blast
  from lang_icon_items [OF v(2)] obtain body where body: "v = body @ '';''"
    "list_all token_char body" by blast
  from icon_name_set [OF mem] obtain nm where nm: "map_of g' ''name'' = Some nm" by auto
  from ms_groups [OF mem nm] named_bodies_icon [of "''&'' @ marker"] have vn: "valid_name nm"
    by (auto simp: lang_Plus_icon)
  have md: "map_of g' ''mod'' = None \<or> valid_mods (the (map_of g' ''mod''))"
  proof (cases "map_of g' ''mod''")
    case None
    then show ?thesis by simp
  next
    case (Some x)
    from ms_groups [OF mem Some] named_bodies_icon [of "''&'' @ marker"] show ?thesis
      by (auto simp: Some dest: lang_mods_re)
  qed
  have um: "map_of g' ''user_mod'' = None \<or> valid_mods (the (map_of g' ''user_mod''))"
  proof (cases "map_of g' ''user_mod''")
    case None
    then show ?thesis by simp
  next
    case (Some x)
    from ms_groups [OF mem Some] named_bodies_icon [of "''&'' @ marker"] show ?thesis
      by (auto simp: Some dest: lang_mods_re)
  qed
  from w(2) v(1) body(1) have s: "s = ''&'' @ marker @ body @ '';'' @ s'" by simp
  then have len: "length s - length s' = length (''&'' @ marker @ body @ '';'')" by simp
  from s body(2) m len nm vn md um show ?thesis
    by (intro exI [of _ nm] exI [of _ "map_of g' ''mod''"]
        exI [of _ "map_of g' ''user_mod''"] exI [of _ body] exI [of _ s']) simp
qed

lemma re_match_at_icon:
  assumes "re_match_at (icon_pattern marker) data pos = Some m"
  shows "\<exists>nm md um body rest.
     drop pos data = ''&'' @ marker @ body @ '';'' @ rest \<and> list_all token_char body \<and>
     m_start m = pos \<and> m_end m = pos + length (''&'' @ marker @ body @ '';'') \<and>
     groupdict m = [(''name'', Some nm), (''mod'', md), (''user_mod'', um)] \<and>
     valid_name nm \<and> (md = None \<or> valid_mods (the md)) \<and> (um = None \<or> valid_mods (the um))"
  using assms match_here_icon [of marker pos "drop pos data" m]
  by (simp add: re_match_at_def split: if_splits)

lemma re_search_icon:
  assumes "re_search (icon_pattern marker) data i = Some m"
  shows "\<exists>nm md um body rest.
     drop (m_start m) data = ''&'' @ marker @ body @ '';'' @ rest \<and>
     list_all token_char body \<and>
     m_end m = m_start m + length (''&'' @ marker @ body @ '';'') \<and>
     groupdict m = [(''name'', Some nm), (''mod'', md), (''user_mod'', um)] \<and>
     valid_name nm \<and> (md = None \<or> valid_mods (the md)) \<and> (um = None \<or> valid_mods (the um))"
proof -
  from re_search_Some [OF assms]
  have "re_match_at (icon_pattern marker) data (m_start m) = Some m" by simp
  from re_match_at_icon [OF this] show ?thesis by blast
qed


lemma re_search_icon_needs_semicolon:
  "CHR '';'' \<notin> set data \<Longrightarrow> re_search (icon_pattern marker) data i = None"
proof (rule ccontr)
  assume no: "CHR '';'' \<notin> set data" and "re_search (icon_pattern marker) data i \<noteq> None"
  then obtain m where "re_search (icon_pattern marker) data i = Some m" by auto
  from re_search_icon [OF this] obtain body rest where
    "drop (m_start m) data = ''&'' @ marker @ body @ '';'' @ rest" by blast
  then have "CHR '';'' \<in> set (drop (m_start m) data)" by simp
  then have "CHR '';'' \<in> set data" by (rule in_set_dropD)
  with no show False by simp
qed

text \<open>A token whose text runs into the end of the input or into a character that a token
  cannot hold, before any \<open>;\<close>, is no match at its \<open>&\<close>.\<close>

lemma unterminated_no_match:
  assumes data: "data = pre @ ''&'' @ marker @ body @ rest"
    and body: "list_all token_char body"
    and rest: "rest = [] \<or> (\<not> token_char (hd rest) \<and> hd rest \<noteq> CHR '';'')"
  shows "re_match_at (icon_pattern marker) data (length pre) = None"
proof (rule ccontr)
  assume "re_match_at (icon_pattern marker) data (length pre) \<noteq> None"
  then obtain m where "re_match_at (icon_pattern marker) data (length pre) = Some m" by auto
  from re_match_at_icon [OF this] obtain b r where
    eq: "drop (length pre) data = ''&'' @ marker @ b @ '';'' @ r" and b: "list_all token_char b"
    by blast
  from eq data have e: "body @ rest = b @ '';'' @ r" by simp
  show False
  proof (cases "length b < length body")
    case True
    from e have "(body @ rest) ! length b = (b @ '';'' @ r) ! length b" by simp
    with True have "body ! length b = CHR '';''" by (simp add: nth_append)
    moreover from body True have "token_char (body ! length b)" by (simp add: list_all_length)
    ultimately show False by (auto dest: token_char_not_semicolon)
  next
    case False
    then have le: "length body \<le> length b" by simp
    from e have len: "length body + length rest = length b + 1 + length r"
      by (metis length_append length_Cons list.size(3) One_nat_def add.assoc add_Suc_right
          add.right_neutral Suc_eq_plus1)
    with le have rest_ne: "rest \<noteq> []" by auto
    from e have "(body @ rest) ! length body = (b @ '';'' @ r) ! length body" by simp
    with rest_ne have hd: "hd rest = (b @ '';'' @ r) ! length body"
      by (simp add: nth_append hd_conv_nth)
    have "token_char (hd rest) \<or> hd rest = CHR '';''"
    proof (cases "length body < length b")
      case True
      with hd b show ?thesis by (simp add: nth_append list_all_length)
    next
      case False
      with le have "length body = length b" by simp
      with hd show ?thesis by (simp add: nth_append)
    qed
    with rest rest_ne show False by auto
  qed
qed

subsection \<open>The first match on a token with a name only\<close>

lemma ms_one_icon_char:
  "ms icon_chars (s, g) = (case s of [] \<Rightarrow> [] | x # xs \<Rightarrow> if icon_char x then [(xs, g)] else [])"
  by (cases s) (simp_all add: icon_chars_def)

lemma ms_Star_icon_first:
  "list_all icon_char w \<Longrightarrow> t = [] \<or> \<not> icon_char (hd t) \<Longrightarrow>
     \<exists>more. ms (Star icon_chars) (w @ t, g) = (t, g) # more"
proof (induction w)
  case Nil
  then show ?case
    by (cases t) (simp_all add: ms.simps(8) [of icon_chars] ms_one_icon_char)
next
  case (Cons c w)
  then obtain more where "ms (Star icon_chars) (w @ t, g) = (t, g) # more" by auto
  with Cons.prems(1) show ?case
    by (simp add: ms.simps(8) [of icon_chars "(c # w @ t, g)"] ms_one_icon_char)
qed

lemma ms_name_first:
  assumes "valid_name nm" and "t = [] \<or> \<not> icon_char (hd t)"
  shows "\<exists>more. ms (Group (Some ''name'') (Plus icon_chars)) (nm @ t, g) =
           (t, AList.update ''name'' nm g) # more"
proof -
  from assms(1) obtain c w where nm: "nm = c # w" and c: "icon_char c"
    and w: "list_all icon_char w" by (cases nm) (auto simp: valid_name_def)
  from ms_Star_icon_first [OF w assms(2), of g]
  obtain more where "ms (Star icon_chars) (w @ t, g) = (t, g) # more" by blast
  with c nm show ?thesis by (simp add: ms_one_icon_char)
qed

lemma ms_icon_items_name_only:
  assumes "valid_name nm"
  shows "\<exists>more. ms (mk_seq icon_items) (nm @ '';'' @ rest, []) = (rest, [(''name'', nm)]) # more"
proof -
  have "\<not> icon_char CHR '';''" by (simp add: icon_char_def)
  then have "'';'' @ rest = [] \<or> \<not> icon_char (hd ('';'' @ rest))" by simp
  from ms_name_first [OF assms this, of "[]"]
  obtain more where "ms (Group (Some ''name'') (Plus icon_chars)) (nm @ '';'' @ rest, []) =
      (rest', [(''name'', nm)]) # more" if "rest' = '';'' @ rest" for rest'
    by auto
  then show ?thesis by (simp add: icon_items_def)
qed

lemma match_here_name_only:
  assumes "valid_name nm"
  shows "match_here (icon_pattern marker) pos (''&'' @ marker @ nm @ '';'' @ rest) =
           Some \<lparr>m_start = pos, m_end = pos + length (''&'' @ marker @ nm @ '';''),
                 groupdict = [(''name'', Some nm), (''mod'', None), (''user_mod'', None)]\<rparr>"
proof -
  from ms_icon_items_name_only [OF assms, of rest] obtain more where
    "ms (mk_seq icon_items) (nm @ '';'' @ rest, []) = (rest, [(''name'', nm)]) # more" by blast
  then have "ms (mk_seq (map Lit (''&'' @ marker) @ icon_items))
      ((''&'' @ marker) @ nm @ '';'' @ rest, []) = (rest, [(''name'', nm)]) # more"
    by (simp only: ms_lits) simp
  then show ?thesis by (simp add: match_here_def icon_pattern_def)
qed

section \<open>The claims\<close>

lemma default_pattern:
  "new_IconFontsPattern (''&'' @ prefix default_config @ ICON_RE) (base default_config)
     (prefix default_config) =
   Inr \<lparr>pattern = ''&'' @ ''icon-'' @ ICON_RE, compiled_re = icon_pattern ''icon-'',
        self_base = [], self_prefix = ''icon-''\<rparr>"
  by (simp add: default_config_def new_IconFontsPattern_plain [of "''icon-''", simplified]
      plain_char_def)

lemma search_spinner:
  "re_search (icon_pattern ''icon-'') ''&icon-spinner:large,spin:red;'' 0 =
     Some \<lparr>m_start = 0, m_end = 29,
           groupdict = [(''name'', Some ''spinner''), (''mod'', Some ''large,spin''),
                        (''user_mod'', Some ''red'')]\<rparr>"
  by code_simp

text \<open>
  C1. For every matched token \<open>handleMatch\<close> builds the class string from the slots in the
  fixed order base (when not empty), prefix and name, the prefixed modifiers, the user
  modifiers: a modifier block is split at the commas, its empty entries are dropped, the
  prefix is put before each entry that is left (not before those of the user block) and the
  entries are joined with one space. So \<open>&icon-spinner:large,spin:red;\<close> under the default
  binding gives the class \<open>icon-spinner icon-large icon-spin red\<close>.
\<close>

theorem class_string_slot_order:
  "(\<forall>self m data name md um.
      map_of (groupdict m) ''name'' = Some name \<and> map_of (groupdict m) ''mod'' = Some md \<and>
      map_of (groupdict m) ''user_mod'' = Some um \<longrightarrow>
      (\<exists>el. handleMatch self m data = Inr (el, m_start m, m_end m) \<and>
            map_of (attrib el) ''class'' =
              Some (str_join '' ''
                (class_segments (self_base self) (self_prefix self) name md um)))) \<and>
   (\<exists>p. new_IconFontsPattern (''&'' @ prefix default_config @ ICON_RE) (base default_config)
          (prefix default_config) = Inr p \<and>
        applyPattern p ''&icon-spinner:large,spin:red;'' 0 =
          Some (Inr (Element ''i''
                  [(''class'', ''icon-spinner icon-large icon-spin red''),
                   (''aria-hidden'', ''true'')] None [], 0, 29)))"
proof (intro conjI allI impI)
  fix self :: IconFontsPattern and m :: re_match and data :: string
    and name md um :: "string option"
  assume "map_of (groupdict m) ''name'' = Some name \<and> map_of (groupdict m) ''mod'' = Some md \<and>
      map_of (groupdict m) ''user_mod'' = Some um"
  then have "handleMatch self m data =
      Inr (Element ''i''
             [(''class'', str_join '' ''
                 (class_segments (self_base self) (self_prefix self) name md um)),
              (''aria-hidden'', ''true'')] None [], m_start m, m_end m)"
    by (simp add: handleMatch_eq)
  then show "\<exists>el. handleMatch self m data = Inr (el, m_start m, m_end m) \<and>
      map_of (attrib el) ''class'' =
        Some (str_join '' '' (class_segments (self_base self) (self_prefix self) name md um))"
    by simp
next
  show "\<exists>p. new_IconFontsPattern (''&'' @ prefix default_config @ ICON_RE) (base default_config)
          (prefix default_config) = Inr p \<and>
        applyPattern p ''&icon-spinner:large,spin:red;'' 0 =
          Some (Inr (Element ''i''
                  [(''class'', ''icon-spinner icon-large icon-spin red''),
                   (''aria-hidden'', ''true'')] None [], 0, 29))"
    unfolding default_pattern
    by (simp add: applyPattern_def search_spinner handleMatch_eq class_segments_def
        filter_None_def)
qed

theorem class_string_slot_order_witness:
  "\<exists>el. handleMatch
          \<lparr>pattern = ''&fa-'' @ ICON_RE, compiled_re = icon_pattern ''fa-'',
           self_base = ''fa'', self_prefix = ''fa-''\<rparr>
          \<lparr>m_start = 3, m_end = 20,
           groupdict = [(''name'', Some ''quote''), (''mod'', Some ''3x,,muted''),
                        (''user_mod'', None)]\<rparr> ''ab &fa-quote:3x,,muted;'' =
          Inr (el, 3, 20) \<and>
        map_of (attrib el) ''class'' = Some ''fa fa-quote fa-3x fa-muted''"
  using class_string_slot_order
    [THEN conjunct1, rule_format,
      of "\<lparr>m_start = 3, m_end = 20,
           groupdict = [(''name'', Some ''quote''), (''mod'', Some ''3x,,muted''),
                        (''user_mod'', None)]\<rparr>"
         "Some ''quote''" "Some ''3x,,muted''" None
         "\<lparr>pattern = ''&fa-'' @ ICON_RE, compiled_re = icon_pattern ''fa-'',
           self_base = ''fa'', self_prefix = ''fa-''\<rparr>" "''ab &fa-quote:3x,,muted;''"]
  by (simp add: class_segments_def filter_None_def)

text \<open>
  C9. For every matched token the element is an \<open>i\<close> element with exactly two attributes,
  \<open>class\<close> and \<open>aria-hidden\<close> with the value \<open>true\<close>, no text and no children, and it is
  returned with the start and the end of the match. For a match the host found by a search
  from \<open>startIndex\<close>, these are the bounds of the text the pattern matched at that start:
  they lie in the input, not before \<open>startIndex\<close>.
\<close>

theorem element_and_span:
  "(\<forall>self m data name md um.
      map_of (groupdict m) ''name'' = Some name \<and> map_of (groupdict m) ''mod'' = Some md \<and>
      map_of (groupdict m) ''user_mod'' = Some um \<longrightarrow>
      (\<exists>c. handleMatch self m data =
             Inr (Element ''i'' [(''class'', c), (''aria-hidden'', ''true'')] None [],
                  m_start m, m_end m))) \<and>
   (\<forall>p data startIndex r.
      applyPattern p data startIndex = Some r \<longrightarrow>
      (\<exists>m. re_search (compiled_re p) data startIndex = Some m \<and> r = handleMatch p m data \<and>
           re_match_at (compiled_re p) data (m_start m) = Some m \<and>
           startIndex \<le> m_start m \<and> m_start m \<le> m_end m \<and> m_end m \<le> length data))"
proof (intro conjI allI impI)
  fix self :: IconFontsPattern and m :: re_match and data :: string
    and name md um :: "string option"
  assume "map_of (groupdict m) ''name'' = Some name \<and> map_of (groupdict m) ''mod'' = Some md \<and>
      map_of (groupdict m) ''user_mod'' = Some um"
  then show "\<exists>c. handleMatch self m data =
      Inr (Element ''i'' [(''class'', c), (''aria-hidden'', ''true'')] None [],
           m_start m, m_end m)"
    by (simp add: handleMatch_eq)
next
  fix p data startIndex r
  assume "applyPattern p data startIndex = Some r"
  then obtain m where m: "re_search (compiled_re p) data startIndex = Some m"
    and r: "r = handleMatch p m data"
    by (auto simp: applyPattern_def split: option.splits)
  from re_search_Some [OF m] m r
  show "\<exists>m. re_search (compiled_re p) data startIndex = Some m \<and> r = handleMatch p m data \<and>
      re_match_at (compiled_re p) data (m_start m) = Some m \<and>
      startIndex \<le> m_start m \<and> m_start m \<le> m_end m \<and> m_end m \<le> length data"
    by auto
qed

theorem element_and_span_witness:
  "(\<exists>c. handleMatch
          \<lparr>pattern = ''&icon-'' @ ICON_RE, compiled_re = icon_pattern ''icon-'',
           self_base = [], self_prefix = ''icon-''\<rparr>
          \<lparr>m_start = 0, m_end = 29,
           groupdict = [(''name'', Some ''spinner''), (''mod'', Some ''large,spin''),
                        (''user_mod'', Some ''red'')]\<rparr> ''&icon-spinner:large,spin:red;'' =
          Inr (Element ''i'' [(''class'', c), (''aria-hidden'', ''true'')] None [], 0, 29)) \<and>
   (\<exists>m. re_search (icon_pattern ''icon-'') ''&icon-spinner:large,spin:red;'' 0 = Some m \<and>
        re_match_at (icon_pattern ''icon-'') ''&icon-spinner:large,spin:red;'' (m_start m) =
          Some m \<and>
        m_start m \<le> m_end m \<and> m_end m \<le> 29)"
proof -
  let ?p = "\<lparr>pattern = ''&icon-'' @ ICON_RE, compiled_re = icon_pattern ''icon-'',
           self_base = [], self_prefix = ''icon-''\<rparr>"
  let ?m = "\<lparr>m_start = 0, m_end = 29,
           groupdict = [(''name'', Some ''spinner''), (''mod'', Some ''large,spin''),
                        (''user_mod'', Some ''red'')]\<rparr>"
  let ?d = "''&icon-spinner:large,spin:red;''"
  have a: "applyPattern ?p ?d 0 = Some (handleMatch ?p ?m ?d)"
    by (simp add: applyPattern_def search_spinner)
  from element_and_span [THEN conjunct1, rule_format,
      of ?m "Some ''spinner''" "Some ''large,spin''" "Some ''red''" ?p ?d]
  have 1: "\<exists>c. handleMatch ?p ?m ?d =
      Inr (Element ''i'' [(''class'', c), (''aria-hidden'', ''true'')] None [], 0, 29)"
    by simp
  from element_and_span [THEN conjunct2, rule_format, OF a]
  have 2: "\<exists>m. re_search (icon_pattern ''icon-'') ?d 0 = Some m \<and>
      re_match_at (icon_pattern ''icon-'') ?d (m_start m) = Some m \<and>
      m_start m \<le> m_end m \<and> m_end m \<le> 29"
    by auto
  from 1 2 show ?thesis by (rule conjI)
qed

lemma applyPattern_plain:
  "applyPattern
     \<lparr>pattern = pat, compiled_re = icon_pattern marker, self_base = bs, self_prefix = pre\<rparr>
     data i =
   (case re_search (icon_pattern marker) data i of
      None \<Rightarrow> None
    | Some m \<Rightarrow>
        Some (handleMatch
          \<lparr>pattern = pat, compiled_re = icon_pattern marker, self_base = bs,
            self_prefix = pre\<rparr> m data))"
  by (simp add: applyPattern_def)

lemma search_name_only:
  assumes "valid_name nm"
  shows "re_search (icon_pattern marker) (''&'' @ marker @ nm @ '';'' @ rest) 0 =
           Some \<lparr>m_start = 0, m_end = length (''&'' @ marker @ nm @ '';''),
                 groupdict = [(''name'', Some nm), (''mod'', None), (''user_mod'', None)]\<rparr>"
  using match_here_name_only [OF assms, of marker 0 rest] by (simp add: re_search_def)

text \<open>
  C6. For every name that is a non-empty run of \<open>[A-Za-z0-9-]\<close>, the input \<open>&icon-name;\<close>
  under the default binding is matched and gives exactly the class \<open>icon-\<close> followed by
  the name.
\<close>

theorem name_only_token_class:
  assumes "valid_name name"
  shows "\<exists>p. new_IconFontsPattern (''&'' @ prefix default_config @ ICON_RE)
               (base default_config) (prefix default_config) = Inr p \<and>
             applyPattern p (''&icon-'' @ name @ '';'') 0 =
               Some (Inr (Element ''i''
                       [(''class'', ''icon-'' @ name), (''aria-hidden'', ''true'')] None [],
                     0, length name + 7))"
proof -
  from search_name_only [OF assms, of "''icon-''" "[]"]
  have "re_search (icon_pattern ''icon-'') (''&icon-'' @ name @ '';'') 0 =
      Some \<lparr>m_start = 0, m_end = length name + 7,
            groupdict = [(''name'', Some name), (''mod'', None), (''user_mod'', None)]\<rparr>"
    by simp
  then show ?thesis
    unfolding default_pattern
    by (simp add: applyPattern_plain handleMatch_eq class_segments_def)
qed

theorem name_only_token_class_witness:
  "valid_name ''html5'' \<and>
   (\<exists>p. new_IconFontsPattern (''&'' @ prefix default_config @ ICON_RE)
          (base default_config) (prefix default_config) = Inr p \<and>
        applyPattern p ''&icon-html5;'' 0 =
          Some (Inr (Element ''i''
                  [(''class'', ''icon-html5''), (''aria-hidden'', ''true'')] None [], 0, 12)))"
proof -
  have v: "valid_name ''html5''" by (simp add: valid_name_def icon_char_def)
  from name_only_token_class [OF v] v show ?thesis by simp
qed

text \<open>
  C8. With the empty marker the pattern is \<open>&\<close> followed by \<open>ICON_RE\<close>: \<open>&html5;\<close> is
  matched and gives exactly the class \<open>html5\<close>, and the closing \<open>;\<close> is still needed:
  \<open>&html5\<close> is no match, and neither is any input without a \<open>;\<close>.
\<close>

theorem empty_marker_needs_semicolon:
  "\<exists>p. new_IconFontsPattern (''&'' @ [] @ ICON_RE) [] [] = Inr p \<and>
        applyPattern p ''&html5;'' 0 =
          Some (Inr (Element ''i'' [(''class'', ''html5''), (''aria-hidden'', ''true'')] None [],
                0, 7)) \<and>
        applyPattern p ''&html5'' 0 = None \<and>
        (\<forall>data i. CHR '';'' \<notin> set data \<longrightarrow> applyPattern p data i = None)"
proof -
  have v: "valid_name ''html5''" by (simp add: valid_name_def icon_char_def)
  from search_name_only [OF v, of "[]" "[]"]
  have s: "re_search (icon_pattern []) ''&html5;'' 0 =
      Some \<lparr>m_start = 0, m_end = 7,
            groupdict = [(''name'', Some ''html5''), (''mod'', None), (''user_mod'', None)]\<rparr>"
    by simp
  have p: "new_IconFontsPattern (''&'' @ [] @ ICON_RE) [] [] =
      Inr \<lparr>pattern = ''&'' @ [] @ ICON_RE, compiled_re = icon_pattern [], self_base = [],
           self_prefix = []\<rparr>"
    by (rule new_IconFontsPattern_plain) simp
  show ?thesis
    unfolding p
    by (simp add: applyPattern_plain s handleMatch_eq class_segments_def
        re_search_icon_needs_semicolon)
qed

theorem empty_marker_needs_semicolon_witness:
  "\<exists>p. new_IconFontsPattern (''&'' @ [] @ ICON_RE) [] [] = Inr p \<and>
        CHR '';'' \<notin> set ''see &html5 and &css3'' \<and>
        applyPattern p ''see &html5 and &css3'' 4 = None"
  using empty_marker_needs_semicolon by auto

text \<open>
  Where the marker of a binding is made of plain characters, a token that is not closed
  never matches: an input without any \<open>;\<close> has no match at all, and where \<open>&\<close> and the
  marker are followed by characters of a token and then by the end of the input or by a
  character that is neither one of a token nor \<open>;\<close>, no match starts at that \<open>&\<close>. The
  matcher then returns no match and raises nothing.
\<close>

lemma plain_marker_unterminated_no_match:
  assumes "list_all plain_char marker"
    and "new_IconFontsPattern (''&'' @ marker @ ICON_RE) bs marker = Inr p"
  shows "(CHR '';'' \<notin> set data \<longrightarrow> applyPattern p data i = None) \<and>
         (\<forall>pre body rest.
            data = pre @ ''&'' @ marker @ body @ rest \<and> list_all token_char body \<and>
            (rest = [] \<or> (\<not> token_char (hd rest) \<and> hd rest \<noteq> CHR '';'')) \<longrightarrow>
            re_match_at (compiled_re p) data (length pre) = None \<and>
            (\<forall>j m. re_search (compiled_re p) data j = Some m \<longrightarrow> m_start m \<noteq> length pre))"
proof -
  from assms(2) new_IconFontsPattern_plain [OF assms(1), of bs]
  have p: "p = \<lparr>pattern = ''&'' @ marker @ ICON_RE,
      compiled_re = icon_pattern marker, self_base = bs, self_prefix = marker\<rparr>"
    by simp
  have 1: "CHR '';'' \<notin> set data \<longrightarrow> applyPattern p data i = None"
    unfolding p by (simp add: applyPattern_plain re_search_icon_needs_semicolon)
  have 2: "re_match_at (compiled_re p) data (length pre) = None \<and>
      (\<forall>j m. re_search (compiled_re p) data j = Some m \<longrightarrow> m_start m \<noteq> length pre)"
    if h: "data = pre @ ''&'' @ marker @ body @ rest \<and> list_all token_char body \<and>
      (rest = [] \<or> (\<not> token_char (hd rest) \<and> hd rest \<noteq> CHR '';''))"
    for pre body rest
  proof -
    from h have none: "re_match_at (icon_pattern marker) data (length pre) = None"
      by (intro unterminated_no_match [of data pre marker body rest]) simp_all
    have "m_start m \<noteq> length pre" if "re_search (icon_pattern marker) data j = Some m"
      for j m
      using re_search_Some [OF that] none by auto
    with none show ?thesis unfolding p by simp
  qed
  from 1 2 show ?thesis by blast
qed

lemma plain_marker_unterminated_no_match_example:
  "list_all plain_char ''icon-'' \<and>
   (\<exists>p. new_IconFontsPattern (''&'' @ ''icon-'' @ ICON_RE) [] ''icon-'' = Inr p \<and>
        CHR '';'' \<notin> set ''I love &icon-html5'' \<and>
        applyPattern p ''I love &icon-html5'' 0 = None \<and>
        ''a &icon-css3 b; c'' = ''a '' @ ''&'' @ ''icon-'' @ ''css3'' @ '' b; c'' \<and>
        list_all token_char ''css3'' \<and> \<not> token_char (hd '' b; c'') \<and>
        re_match_at (compiled_re p) ''a &icon-css3 b; c'' (length ''a '') = None)"
proof -
  have pl: "list_all plain_char ''icon-''" by (simp add: plain_char_def)
  let ?p = "\<lparr>pattern = ''&'' @ ''icon-'' @ ICON_RE, compiled_re = icon_pattern ''icon-'',
      self_base = [], self_prefix = ''icon-''\<rparr>"
  have p: "new_IconFontsPattern (''&'' @ ''icon-'' @ ICON_RE) [] ''icon-'' = Inr ?p"
    by (rule new_IconFontsPattern_plain [OF pl])
  have tc: "list_all token_char ''css3''" "\<not> token_char (hd '' b; c'')"
    by (simp_all add: token_char_def icon_char_def)
  have ns: "CHR '';'' \<notin> set ''I love &icon-html5''" by simp
  from plain_marker_unterminated_no_match [OF pl p, of "''I love &icon-html5''" 0] ns
  have a: "applyPattern ?p ''I love &icon-html5'' 0 = None" by blast
  have "''a &icon-css3 b; c'' = ''a '' @ ''&'' @ ''icon-'' @ ''css3'' @ '' b; c'' \<and>
      list_all token_char ''css3'' \<and>
      ('' b; c'' = [] \<or> (\<not> token_char (hd '' b; c'') \<and> hd '' b; c'' \<noteq> CHR '';''))"
    using tc by simp
  with plain_marker_unterminated_no_match [OF pl p, of "''a &icon-css3 b; c''" 0]
  have b: "re_match_at (compiled_re ?p) ''a &icon-css3 b; c'' (length ''a '') = None"
    by blast
  from pl p ns a tc b show ?thesis by simp
qed

text \<open>
  C5. An unterminated token has to stay plain text under every binding. The marker is put
  into the pattern as it is (see C3), so under a binding with the marker \<open>a|b\<close> the pattern
  reads: \<open>&a\<close>, or \<open>b\<close> and a token. The input \<open>&a|bhtml5\<close> holds \<open>&\<close>, the marker and a name
  and no \<open>;\<close>; still it is matched, at its first two characters, and \<open>handleMatch\<close> emits an
  element for them, with the class \<open>a|bNone\<close>.
\<close>

theorem unterminated_token_is_matched:
  "CHR '';'' \<notin> set ''&a|bhtml5'' \<and>
   (case new_IconFontsPattern (''&'' @ ''a|b'' @ ICON_RE) [] ''a|b'' of
      Inl e \<Rightarrow> None
    | Inr p \<Rightarrow> applyPattern p ''&a|bhtml5'' 0) =
     Some (Inr (Element ''i'' [(''class'', ''a|bNone''), (''aria-hidden'', ''true'')]
                  None [], 0, 2))"
  by code_simp

text \<open>
  C3. The marker is put into the pattern as it is, so \<open>re.compile\<close> reads it as a pattern
  and not as the text to find. With the prefix \<open>fa.\<close> the token \<open>&faXhtml5;\<close>, which does not
  hold the marker, is matched, and its class is built from the marker as text:
  \<open>fa.html5\<close>. With the prefix \<open>a+\<close> the text \<open>&a+x;\<close> that does hold the marker is no match,
  while \<open>&aax;\<close> is one. With the prefix \<open>(\<close> the pattern does not compile.
\<close>

theorem marker_is_read_as_a_pattern:
  "(case new_IconFontsPattern (''&'' @ ''fa.'' @ ICON_RE) ''fa'' ''fa.'' of
      Inl e \<Rightarrow> None
    | Inr p \<Rightarrow> applyPattern p ''&faXhtml5;'' 0) =
     Some (Inr (Element ''i'' [(''class'', ''fa fa.html5''), (''aria-hidden'', ''true'')]
                  None [], 0, 10)) \<and>
   (case new_IconFontsPattern (''&'' @ ''a+'' @ ICON_RE) [] ''a+'' of
      Inl e \<Rightarrow> Some (Inl e)
    | Inr p \<Rightarrow> applyPattern p ''&a+x;'' 0) = None \<and>
   (case new_IconFontsPattern (''&'' @ ''a+'' @ ICON_RE) [] ''a+'' of
      Inl e \<Rightarrow> None
    | Inr p \<Rightarrow> applyPattern p ''&aax;'' 0) =
     Some (Inr (Element ''i'' [(''class'', ''a+x''), (''aria-hidden'', ''true'')]
                  None [], 0, 5)) \<and>
   new_IconFontsPattern (''&'' @ ''('' @ ICON_RE) [] ''('' =
     Inl (Re_error ''missing ), unterminated subpattern'')"
  by code_simp

text \<open>
  C2, as the claim states it, fails: the modifier block \<open>mod1,,mod2\<close> is not one the pattern
  accepts, so \<open>&icon-name:mod1,,mod2;\<close> is not matched under the default binding.
\<close>

theorem empty_modifier_entry_counterexample:
  "(case new_IconFontsPattern (''&'' @ prefix default_config @ ICON_RE) (base default_config)
          (prefix default_config) of
      Inl e \<Rightarrow> Some (Inl e)
    | Inr p \<Rightarrow> applyPattern p ''&icon-name:mod1,,mod2;'' 0) = None"
  by code_simp

lemma valid_mods_filter_None:
  "valid_mods v \<Longrightarrow> filter_None (str_split CHR '','' v) = str_split CHR '','' v"
  by (auto simp: valid_mods_def filter_None_def valid_name_def list_all_iff
      intro!: filter_True)

lemma search_quote:
  "re_search (icon_pattern ''icon-'') ''&icon-quote:3x,muted;'' 0 =
     Some \<lparr>m_start = 0, m_end = 21,
           groupdict = [(''name'', Some ''quote''), (''mod'', Some ''3x,muted''),
                        (''user_mod'', None)]\<rparr>"
  by code_simp

text \<open>
  C2, amended. Under a binding with a plain marker every modifier block a match captures is
  a comma-separated list of non-empty runs, so the filter of \<open>handleMatch\<close> finds no empty
  entry to drop; a token whose block is \<open>mod1,,mod2\<close> is not matched and stays text. Handed
  a block \<open>mod1,,mod2\<close>, \<open>handleMatch\<close> drops the empty entry: the class is exactly
  \<open>icon-name icon-mod1 icon-mod2\<close>, with no empty segment and no double space.
\<close>

theorem empty_modifier_entries:
  "(\<forall>marker bs p data i m v.
      list_all plain_char marker \<and>
      new_IconFontsPattern (''&'' @ marker @ ICON_RE) bs marker = Inr p \<and>
      re_search (compiled_re p) data i = Some m \<and>
      (map_of (groupdict m) ''mod'' = Some (Some v) \<or>
       map_of (groupdict m) ''user_mod'' = Some (Some v)) \<longrightarrow>
      valid_mods v \<and> filter_None (str_split CHR '','' v) = str_split CHR '','' v) \<and>
   (\<exists>p. new_IconFontsPattern (''&'' @ prefix default_config @ ICON_RE) (base default_config)
          (prefix default_config) = Inr p \<and>
        applyPattern p ''&icon-name:mod1,,mod2;'' 0 = None \<and>
        handleMatch p
          \<lparr>m_start = 0, m_end = 22,
           groupdict = [(''name'', Some ''name''), (''mod'', Some ''mod1,,mod2''),
                        (''user_mod'', None)]\<rparr> ''&icon-name:mod1,,mod2;'' =
          Inr (Element ''i'' [(''class'', ''icon-name icon-mod1 icon-mod2''),
                              (''aria-hidden'', ''true'')] None [], 0, 22))"
proof (intro conjI allI impI)
  fix marker bs :: string and p :: IconFontsPattern and data :: string and i :: nat
    and m :: re_match and v :: string
  assume h: "list_all plain_char marker \<and>
      new_IconFontsPattern (''&'' @ marker @ ICON_RE) bs marker = Inr p \<and>
      re_search (compiled_re p) data i = Some m \<and>
      (map_of (groupdict m) ''mod'' = Some (Some v) \<or>
       map_of (groupdict m) ''user_mod'' = Some (Some v))"
  with new_IconFontsPattern_plain [of marker bs]
  have "re_search (icon_pattern marker) data i = Some m" by auto
  from re_search_icon [OF this] h have "valid_mods v" by auto
  then show "valid_mods v" "filter_None (str_split CHR '','' v) = str_split CHR '','' v"
    by (simp_all add: valid_mods_filter_None)
next
  have "re_search (icon_pattern ''icon-'') ''&icon-name:mod1,,mod2;'' 0 = None"
    by code_simp
  then show "\<exists>p. new_IconFontsPattern (''&'' @ prefix default_config @ ICON_RE)
          (base default_config) (prefix default_config) = Inr p \<and>
        applyPattern p ''&icon-name:mod1,,mod2;'' 0 = None \<and>
        handleMatch p
          \<lparr>m_start = 0, m_end = 22,
           groupdict = [(''name'', Some ''name''), (''mod'', Some ''mod1,,mod2''),
                        (''user_mod'', None)]\<rparr> ''&icon-name:mod1,,mod2;'' =
          Inr (Element ''i'' [(''class'', ''icon-name icon-mod1 icon-mod2''),
                              (''aria-hidden'', ''true'')] None [], 0, 22)"
    unfolding default_pattern
    by (simp add: applyPattern_plain handleMatch_eq class_segments_def filter_None_def)
qed

theorem empty_modifier_entries_witness:
  "list_all plain_char ''icon-'' \<and>
   new_IconFontsPattern (''&'' @ ''icon-'' @ ICON_RE) [] ''icon-'' =
     Inr \<lparr>pattern = ''&'' @ ''icon-'' @ ICON_RE, compiled_re = icon_pattern ''icon-'',
          self_base = [], self_prefix = ''icon-''\<rparr> \<and>
   re_search (icon_pattern ''icon-'') ''&icon-quote:3x,muted;'' 0 =
     Some \<lparr>m_start = 0, m_end = 21,
           groupdict = [(''name'', Some ''quote''), (''mod'', Some ''3x,muted''),
                        (''user_mod'', None)]\<rparr> \<and>
   valid_mods ''3x,muted'' \<and>
   filter_None (str_split CHR '','' ''3x,muted'') = str_split CHR '','' ''3x,muted''"
proof -
  have pl: "list_all plain_char ''icon-''" by (simp add: plain_char_def)
  let ?p = "\<lparr>pattern = ''&'' @ ''icon-'' @ ICON_RE, compiled_re = icon_pattern ''icon-'',
      self_base = [], self_prefix = ''icon-''\<rparr>"
  let ?m = "\<lparr>m_start = 0, m_end = 21,
           groupdict = [(''name'', Some ''quote''), (''mod'', Some ''3x,muted''),
                        (''user_mod'', None)]\<rparr>"
  have p: "new_IconFontsPattern (''&'' @ ''icon-'' @ ICON_RE) [] ''icon-'' = Inr ?p"
    by (rule new_IconFontsPattern_plain [OF pl])
  have s: "re_search (compiled_re ?p) ''&icon-quote:3x,muted;'' 0 = Some ?m"
    by (simp add: search_quote)
  have g: "map_of (groupdict ?m) ''mod'' = Some (Some ''3x,muted'')" by simp
  from empty_modifier_entries [THEN conjunct1, rule_format,
      of "''icon-''" "[]" ?p "''&icon-quote:3x,muted;''" 0 ?m "''3x,muted''"] pl p s g
  have "valid_mods ''3x,muted'' \<and>
      filter_None (str_split CHR '','' ''3x,muted'') = str_split CHR '','' ''3x,muted''"
    by blast
  with pl p search_quote show ?thesis by simp
qed

subsection \<open>The shape of a class string\<close>

lemma no_double_space_Cons:
  "no_double_space (a # s) =
     (no_double_space s \<and> \<not> (a = CHR '' '' \<and> s \<noteq> [] \<and> hd s = CHR '' ''))"
  by (cases s) auto

lemma no_double_space_append:
  "no_double_space (u @ v) =
     (no_double_space u \<and> no_double_space v \<and>
      \<not> (u \<noteq> [] \<and> v \<noteq> [] \<and> last u = CHR '' '' \<and> hd v = CHR '' ''))"
proof (induction u)
  case Nil
  show ?case by simp
next
  case (Cons a u)
  then show ?case
    by (cases u) (auto simp: no_double_space_Cons)
qed

lemma no_space_tight:
  "s \<noteq> [] \<Longrightarrow> CHR '' '' \<notin> set s \<Longrightarrow> tight s"
proof -
  assume ne: "s \<noteq> []" and ns: "CHR '' '' \<notin> set s"
  have "no_double_space t" if "CHR '' '' \<notin> set t" for t
    using that by (induction t) (auto simp: no_double_space_Cons)
  with ne ns show ?thesis
    unfolding tight_def by (metis hd_in_set last_in_set)
qed

lemma tight_join2:
  assumes "tight x" and "tight y"
  shows "tight (x @ '' '' @ y)"
proof -
  from assms have ne: "x \<noteq> []" "y \<noteq> []" by (simp_all add: tight_def)
  from ne have h: "hd (x @ '' '' @ y) = hd x" by simp
  from ne have l: "last (x @ '' '' @ y) = last y" by simp
  have "no_double_space ('' '' @ y)"
    using assms(2) by (simp add: no_double_space_Cons tight_def)
  moreover have "hd ('' '' @ y) = CHR '' ''" by simp
  ultimately have "no_double_space (x @ '' '' @ y)"
    using assms(1) unfolding no_double_space_append [of x] tight_def by blast
  with h l assms ne show ?thesis unfolding tight_def by simp
qed

lemma tight_join:
  "xs \<noteq> [] \<Longrightarrow> list_all tight xs \<Longrightarrow> tight (str_join '' '' xs)"
proof (induction "'' ''" xs rule: str_join.induct)
  case 1
  then show ?case by simp
next
  case (2 x)
  then show ?case by simp
next
  case (3 x y ys)
  then have "tight x" "tight (str_join '' '' (y # ys))" by simp_all
  from tight_join2 [OF this] show ?case by simp
qed

lemma set_str_join:
  "set (str_join sep xs) \<subseteq> set sep \<union> \<Union> (set ` set xs)"
  by (induction sep xs rule: str_join.induct) auto

lemma no_delims_join:
  assumes "list_all no_delims xs"
  shows "no_delims (str_join '' '' xs)"
proof -
  have "c \<notin> set (str_join '' '' xs)" if "c \<noteq> CHR '' ''" "\<forall>x\<in>set xs. c \<notin> set x" for c
    using set_str_join [of "'' ''" xs] that by auto
  with assms show ?thesis by (auto simp: no_delims_def list_all_iff)
qed

lemma str_split_not_Nil: "str_split sep s \<noteq> []"
  by (induction s) (auto split: list.splits)

lemma icon_char_no_space: "icon_char c \<Longrightarrow> c \<noteq> CHR '' '' \<and> c \<noteq> CHR ''&'' \<and> c \<noteq> CHR '';''"
  by (auto simp: icon_char_def)

lemma valid_name_entry:
  assumes "valid_name w" and "CHR '' '' \<notin> set pre" and "no_delims pre"
  shows "tight (pre @ w) \<and> no_delims (pre @ w)"
proof -
  from assms(1) have ne: "w \<noteq> []" and ic: "\<forall>c\<in>set w. icon_char c"
    by (simp_all add: valid_name_def list_all_iff)
  from ic icon_char_no_space
  have "CHR '' '' \<notin> set w" "CHR ''&'' \<notin> set w" "CHR '';'' \<notin> set w" by blast+
  with ne assms(2,3) show ?thesis
    by (auto intro!: no_space_tight simp: no_delims_def)
qed

lemma valid_mods_slot:
  assumes "valid_mods v" and "CHR '' '' \<notin> set pre" and "no_delims pre"
  shows "tight (str_join '' '' (map (\<lambda>c. pre @ c) (filter_None (str_split CHR '','' v)))) \<and>
         no_delims (str_join '' '' (map (\<lambda>c. pre @ c) (filter_None (str_split CHR '','' v))))"
proof -
  let ?ws = "str_split CHR '','' v"
  from assms(1) have all: "list_all valid_name ?ws" by (simp add: valid_mods_def)
  then have f: "filter_None ?ws = ?ws"
    by (auto simp: filter_None_def valid_name_def list_all_iff intro!: filter_True)
  from all valid_name_entry [OF _ assms(2,3)]
  have "list_all tight (map (\<lambda>c. pre @ c) ?ws)" "list_all no_delims (map (\<lambda>c. pre @ c) ?ws)"
    by (auto simp: list_all_iff)
  moreover have "map (\<lambda>c. pre @ c) ?ws \<noteq> []" by (simp add: str_split_not_Nil)
  ultimately show ?thesis unfolding f by (simp add: tight_join no_delims_join)
qed

lemma valid_mods_user_slot:
  assumes "valid_mods v"
  shows "tight (str_join '' '' (filter_None (str_split CHR '','' v))) \<and>
         no_delims (str_join '' '' (filter_None (str_split CHR '','' v)))"
  using valid_mods_slot [OF assms, of "[]"] by (simp add: no_delims_def)

lemma class_segments_tight:
  assumes "valid_name nm" and "md = None \<or> valid_mods (the md)"
    and "um = None \<or> valid_mods (the um)"
    and "CHR '' '' \<notin> set pre" and "no_delims pre"
    and "bs = [] \<or> tight bs" and "no_delims bs"
  shows "list_all tight (class_segments bs pre (Some nm) md um) \<and>
         list_all no_delims (class_segments bs pre (Some nm) md um) \<and>
         class_segments bs pre (Some nm) md um \<noteq> []"
proof -
  note n = valid_name_entry [OF assms(1,4,5)]
  have m: "tight (str_join '' '' (map (\<lambda>c. pre @ c) (filter_None (str_split CHR '','' v)))) \<and>
      no_delims (str_join '' '' (map (\<lambda>c. pre @ c) (filter_None (str_split CHR '','' v))))"
    if "md = Some v" for v
    using assms(2) that valid_mods_slot [OF _ assms(4,5), of v] by simp
  have u: "tight (str_join '' '' (filter_None (str_split CHR '','' v))) \<and>
      no_delims (str_join '' '' (filter_None (str_split CHR '','' v)))"
    if "um = Some v" for v
    using assms(3) that valid_mods_user_slot [of v] by simp
  from n m u assms(6,7) show ?thesis
    by (cases md; cases um) (auto simp: class_segments_def)
qed

lemma class_string_ok:
  assumes "valid_name nm" and "md = None \<or> valid_mods (the md)"
    and "um = None \<or> valid_mods (the um)"
    and "CHR '' '' \<notin> set pre" and "no_delims pre"
    and "bs = [] \<or> tight bs" and "no_delims bs"
  shows "no_delims (str_join '' '' (class_segments bs pre (Some nm) md um)) \<and>
         no_double_space (str_join '' '' (class_segments bs pre (Some nm) md um))"
  using class_segments_tight [OF assms] tight_join [of "class_segments bs pre (Some nm) md um"]
    no_delims_join [of "class_segments bs pre (Some nm) md um"]
  by (simp add: tight_def)

text \<open>
  C7, as the claim states it for every binding, fails: the base and the marker go into the
  class string as the host configured them. With the base \<open>fa  lg\<close> the class of \<open>&icon-html5;\<close>
  has two spaces next to each other, and with the marker \<open>x;\<close> the class of \<open>&x;html5;\<close> holds
  the delimiter \<open>;\<close>.
\<close>

theorem class_string_invariant_counterexample:
  "(case new_IconFontsPattern (''&'' @ ''icon-'' @ ICON_RE) ''fa  lg'' ''icon-'' of
      Inl e \<Rightarrow> None
    | Inr p \<Rightarrow> applyPattern p ''&icon-html5;'' 0) =
     Some (Inr (Element ''i'' [(''class'', ''fa  lg icon-html5''), (''aria-hidden'', ''true'')]
                  None [], 0, 12)) \<and>
   \<not> no_double_space ''fa  lg icon-html5'' \<and>
   (case new_IconFontsPattern (''&'' @ ''x;'' @ ICON_RE) [] ''x;'' of
      Inl e \<Rightarrow> None
    | Inr p \<Rightarrow> applyPattern p ''&x;html5;'' 0) =
     Some (Inr (Element ''i'' [(''class'', ''x;html5''), (''aria-hidden'', ''true'')]
                  None [], 0, 9)) \<and>
   \<not> no_delims ''x;html5''"
  by code_simp

text \<open>
  C7, amended. Under a binding whose marker is made of plain characters other than \<open>&\<close>, \<open>;\<close>
  and the space, and whose base holds neither \<open>&\<close> nor \<open>;\<close> and is empty or tight, every
  matched token gives a class string that is the slots base, marker and name, prefixed
  modifiers, user modifiers, in this order, joined with one space; it holds neither \<open>&\<close> nor
  \<open>;\<close> and no two spaces next to each other.
\<close>

theorem class_string_invariant:
  assumes "list_all plain_char marker"
    and "CHR '' '' \<notin> set marker" and "no_delims marker"
    and "bs = [] \<or> tight bs" and "no_delims bs"
    and "new_IconFontsPattern (''&'' @ marker @ ICON_RE) bs marker = Inr p"
    and "applyPattern p data i = Some r"
  shows "\<exists>m nm md um c.
           re_search (compiled_re p) data i = Some m \<and>
           groupdict m = [(''name'', Some nm), (''mod'', md), (''user_mod'', um)] \<and>
           r = Inr (Element ''i'' [(''class'', c), (''aria-hidden'', ''true'')] None [],
                    m_start m, m_end m) \<and>
           c = str_join '' '' (class_segments bs marker (Some nm) md um) \<and>
           no_delims c \<and> no_double_space c"
proof -
  from assms(6) new_IconFontsPattern_plain [OF assms(1), of bs]
  have p: "p = \<lparr>pattern = ''&'' @ marker @ ICON_RE,
      compiled_re = icon_pattern marker, self_base = bs, self_prefix = marker\<rparr>"
    by simp
  from assms(7) obtain m where m: "re_search (icon_pattern marker) data i = Some m"
    and r: "r = handleMatch p m data"
    unfolding p by (auto simp: applyPattern_plain split: option.splits)
  from re_search_icon [OF m] obtain nm md um where
    g: "groupdict m = [(''name'', Some nm), (''mod'', md), (''user_mod'', um)]"
    and v: "valid_name nm" "md = None \<or> valid_mods (the md)" "um = None \<or> valid_mods (the um)"
    by blast
  from g have "handleMatch p m data =
      Inr (Element ''i''
             [(''class'', str_join '' '' (class_segments bs marker (Some nm) md um)),
              (''aria-hidden'', ''true'')] None [], m_start m, m_end m)"
    by (simp add: handleMatch_eq [of m "Some nm" md um] p)
  with r m g class_string_ok [OF v assms(2,3,4,5)] show ?thesis
    unfolding p by auto
qed

theorem class_string_invariant_witness:
  "list_all plain_char ''fa-'' \<and> CHR '' '' \<notin> set ''fa-'' \<and> no_delims ''fa-'' \<and>
   tight ''fa fw'' \<and> no_delims ''fa fw'' \<and>
   (\<exists>p. new_IconFontsPattern (''&'' @ ''fa-'' @ ICON_RE) ''fa fw'' ''fa-'' = Inr p \<and>
        applyPattern p ''a &fa-quote:3x,spin:red,big; b'' 0 =
          Some (Inr (Element ''i''
                  [(''class'', ''fa fw fa-quote fa-3x fa-spin red big''),
                   (''aria-hidden'', ''true'')] None [], 2, 28))) \<and>
   no_delims ''fa fw fa-quote fa-3x fa-spin red big'' \<and>
   no_double_space ''fa fw fa-quote fa-3x fa-spin red big''"
proof -
  have pl: "list_all plain_char ''fa-''" by (simp add: plain_char_def)
  have ns: "CHR '' '' \<notin> set ''fa-''" by simp
  have nd: "no_delims ''fa-''" by (simp add: no_delims_def)
  have tb: "tight ''fa fw''" by (simp add: tight_def)
  have nb: "no_delims ''fa fw''" by (simp add: no_delims_def)
  let ?p = "\<lparr>pattern = ''&'' @ ''fa-'' @ ICON_RE, compiled_re = icon_pattern ''fa-'',
      self_base = ''fa fw'', self_prefix = ''fa-''\<rparr>"
  let ?r = "Inr (Element ''i''
                  [(''class'', ''fa fw fa-quote fa-3x fa-spin red big''),
                   (''aria-hidden'', ''true'')] None [], 2, 28)"
  have p: "new_IconFontsPattern (''&'' @ ''fa-'' @ ICON_RE) ''fa fw'' ''fa-'' = Inr ?p"
    by (rule new_IconFontsPattern_plain [OF pl])
  have s: "re_search (icon_pattern ''fa-'') ''a &fa-quote:3x,spin:red,big; b'' 0 =
      Some \<lparr>m_start = 2, m_end = 28,
            groupdict = [(''name'', Some ''quote''), (''mod'', Some ''3x,spin''),
                         (''user_mod'', Some ''red,big'')]\<rparr>"
    by code_simp
  have a: "applyPattern ?p ''a &fa-quote:3x,spin:red,big; b'' 0 = Some ?r"
    by (simp add: applyPattern_plain s handleMatch_eq class_segments_def filter_None_def)
  from class_string_invariant [OF pl ns nd _ nb p a] tb
  have "no_delims ''fa fw fa-quote fa-3x fa-spin red big'' \<and>
      no_double_space ''fa fw fa-quote fa-3x fa-spin red big''"
    by auto
  with pl ns nd tb nb p a show ?thesis by simp
qed

subsection \<open>The registry\<close>

lemma map_of_filter_name:
  "map_of (filter (\<lambda>e. fst e \<noteq> name) reg) k = (if k = name then None else map_of reg k)"
  by (induction reg) auto

lemma map_of_register:
  "map_of (register item name pr reg) k =
     (if k = name then Some (item, pr) else map_of reg k)"
  by (simp add: register_def map_add_def map_of_filter_name split: option.splits)

lemma names_register:
  "fst ` set (register item name pr reg) = insert name (fst ` set reg)"
  by (force simp: register_def)

lemma filter_register_same:
  "filter (\<lambda>e. fst e = name) (register item name pr reg) = [(name, item, pr)]"
  by (simp add: register_def)

lemma filter_register_other:
  "k \<noteq> name \<Longrightarrow>
   filter (\<lambda>e. fst e = k) (register item name pr reg) = filter (\<lambda>e. fst e = k) reg"
  by (simp add: register_def) (induction reg; auto)

lemma register_pairs_append:
  "register_pairs (xs @ ys) reg =
     (case register_pairs xs reg of Inl e \<Rightarrow> Inl e | Inr r \<Rightarrow> register_pairs ys r)"
  by (induction xs arbitrary: reg) (auto split: sum.splits)

lemma register_pairs_other:
  assumes "register_pairs ps reg = Inr reg'"
    and "\<forall>(m, b)\<in>set ps. ''iconfonts_'' @ rstrip CHR ''-'' m \<noteq> k"
  shows "filter (\<lambda>e. fst e = k) reg' = filter (\<lambda>e. fst e = k) reg"
  using assms
proof (induction ps arbitrary: reg)
  case Nil
  then show ?case by simp
next
  case (Cons a ps)
  obtain m b where a: "a = (m, b)" by (cases a)
  from Cons.prems(1) a obtain p where
    p: "new_IconFontsPattern (''&'' @ m @ ICON_RE) b m = Inr p"
    and r: "register_pairs ps (register p (''iconfonts_'' @ rstrip CHR ''-'' m) 175 reg) = Inr reg'"
    by (auto split: sum.splits)
  from Cons.prems(2) a have ne: "k \<noteq> ''iconfonts_'' @ rstrip CHR ''-'' m"
    and rest: "\<forall>(m, b)\<in>set ps. ''iconfonts_'' @ rstrip CHR ''-'' m \<noteq> k"
    by auto
  from Cons.IH [OF r rest] filter_register_other [OF ne] show ?case by simp
qed

lemma register_pairs_map_of_other:
  assumes "register_pairs ps reg = Inr reg'"
    and "\<forall>(m, b)\<in>set ps. ''iconfonts_'' @ rstrip CHR ''-'' m \<noteq> k"
  shows "map_of reg' k = map_of reg k"
  using assms
proof (induction ps arbitrary: reg)
  case Nil
  then show ?case by simp
next
  case (Cons a ps)
  obtain m b where a: "a = (m, b)" by (cases a)
  from Cons.prems(1) a obtain p where
    r: "register_pairs ps (register p (''iconfonts_'' @ rstrip CHR ''-'' m) 175 reg) = Inr reg'"
    by (auto split: sum.splits)
  from Cons.prems(2) a have ne: "k \<noteq> ''iconfonts_'' @ rstrip CHR ''-'' m"
    and rest: "\<forall>(m, b)\<in>set ps. ''iconfonts_'' @ rstrip CHR ''-'' m \<noteq> k"
    by auto
  from Cons.IH [OF r rest] ne show ?case by (simp add: map_of_register)
qed

lemma register_pairs_plain:
  assumes "\<forall>(m, b)\<in>set ps. list_all plain_char m"
  shows "\<exists>reg'. register_pairs ps reg = Inr reg' \<and>
           fst ` set reg' =
             fst ` set reg \<union> (\<lambda>(m, b). ''iconfonts_'' @ rstrip CHR ''-'' m) ` set ps"
  using assms
proof (induction ps arbitrary: reg)
  case Nil
  then show ?case by simp
next
  case (Cons a ps)
  obtain m b where a: "a = (m, b)" by (cases a)
  from Cons.prems a have pl: "list_all plain_char m"
    and rest: "\<forall>(m, b)\<in>set ps. list_all plain_char m"
    by auto
  let ?p = "\<lparr>pattern = ''&'' @ m @ ICON_RE, compiled_re = icon_pattern m,
      self_base = b, self_prefix = m\<rparr>"
  from Cons.IH [OF rest, of "register ?p (''iconfonts_'' @ rstrip CHR ''-'' m) 175 reg"]
  obtain reg' where
    r: "register_pairs ps (register ?p (''iconfonts_'' @ rstrip CHR ''-'' m) 175 reg) = Inr reg'"
    and n: "fst ` set reg' =
      fst ` set (register ?p (''iconfonts_'' @ rstrip CHR ''-'' m) 175 reg) \<union>
      (\<lambda>(m, b). ''iconfonts_'' @ rstrip CHR ''-'' m) ` set ps"
    by blast
  from r new_IconFontsPattern_plain [OF pl, of b]
  have "register_pairs (a # ps) reg = Inr reg'"
    by (simp add: a)
  moreover from n have "fst ` set reg' =
      fst ` set reg \<union> (\<lambda>(m, b). ''iconfonts_'' @ rstrip CHR ''-'' m) ` set (a # ps)"
    by (simp add: names_register a)
  ultimately show ?case by blast
qed

lemma rstrip_hyphens: "rstrip CHR ''-'' (s @ replicate n CHR ''-'') = rstrip CHR ''-'' s"
proof -
  have "dropWhile (\<lambda>c. c = CHR ''-'') (replicate n CHR ''-'' @ t) =
      dropWhile (\<lambda>c. c = CHR ''-'') t" for t
    by (induction n) simp_all
  then show ?thesis by (simp add: rstrip_def)
qed

text \<open>
  C4, as the claim states it, fails: a configuration in which a pair's marker is exactly
  the global marker raises nothing. Both bindings are registered, under the names
  \<open>iconfonts\<close> and \<open>iconfonts_icon\<close>.
\<close>

theorem colliding_marker_counterexample:
  "extendMarkdown \<lparr>prefix = ''icon-'', base = [], prefix_base_pairs = [(''icon-'', ''fa'')]\<rparr> [] =
     Inr [(''iconfonts'',
           \<lparr>pattern = ''&'' @ ''icon-'' @ ICON_RE, compiled_re = icon_pattern ''icon-'',
            self_base = [], self_prefix = ''icon-''\<rparr>, 175),
          (''iconfonts_icon'',
           \<lparr>pattern = ''&'' @ ''icon-'' @ ICON_RE, compiled_re = icon_pattern ''icon-'',
            self_base = ''fa'', self_prefix = ''icon-''\<rparr>, 175)]"
  by code_simp

text \<open>
  C4, amended. \<open>extendMarkdown\<close> checks no pairing of a marker and a base. For every
  configuration whose markers are made of plain characters it raises nothing, also when
  the marker of a pair is the global marker: the global binding is registered under the
  name \<open>iconfonts\<close>, and the registry then holds the names it held before, \<open>iconfonts\<close>, and
  for each pair \<open>iconfonts_\<close> followed by the marker without its trailing hyphens.
\<close>

theorem no_configuration_error:
  assumes "list_all plain_char (prefix cfg)"
    and "\<forall>(m, b)\<in>set (prefix_base_pairs cfg). list_all plain_char m"
  shows "\<exists>reg' p. extendMarkdown cfg reg = Inr reg' \<and>
           new_IconFontsPattern (''&'' @ prefix cfg @ ICON_RE) (base cfg) (prefix cfg) = Inr p \<and>
           map_of reg' ''iconfonts'' = Some (p, 175) \<and>
           fst ` set reg' =
             fst ` set reg \<union> {''iconfonts''} \<union>
             (\<lambda>(m, b). ''iconfonts_'' @ rstrip CHR ''-'' m) ` set (prefix_base_pairs cfg)"
proof -
  let ?p = "\<lparr>pattern = ''&'' @ prefix cfg @ ICON_RE, compiled_re = icon_pattern (prefix cfg),
      self_base = base cfg, self_prefix = prefix cfg\<rparr>"
  note p = new_IconFontsPattern_plain [OF assms(1), of "base cfg"]
  from register_pairs_plain [OF assms(2), of "register ?p ''iconfonts'' 175 reg"]
  obtain reg' where
    r: "register_pairs (prefix_base_pairs cfg) (register ?p ''iconfonts'' 175 reg) = Inr reg'"
    and n: "fst ` set reg' = fst ` set (register ?p ''iconfonts'' 175 reg) \<union>
      (\<lambda>(m, b). ''iconfonts_'' @ rstrip CHR ''-'' m) ` set (prefix_base_pairs cfg)"
    by blast
  have "\<forall>(m, b)\<in>set (prefix_base_pairs cfg).
      ''iconfonts_'' @ rstrip CHR ''-'' m \<noteq> ''iconfonts''"
    by auto
  from register_pairs_map_of_other [OF r this]
  have m: "map_of reg' ''iconfonts'' = Some (?p, 175)" by (simp add: map_of_register)
  from r p have e: "extendMarkdown cfg reg = Inr reg'" by (simp add: extendMarkdown_def)
  from n have "fst ` set reg' =
      fst ` set reg \<union> {''iconfonts''} \<union>
      (\<lambda>(m, b). ''iconfonts_'' @ rstrip CHR ''-'' m) ` set (prefix_base_pairs cfg)"
    by (simp add: names_register)
  with e p m show ?thesis by blast
qed

theorem no_configuration_error_witness:
  "list_all plain_char ''icon-'' \<and> list_all plain_char ''fa-'' \<and>
   (\<exists>reg' p.
      extendMarkdown
        \<lparr>prefix = ''icon-'', base = [],
         prefix_base_pairs = [(''icon-'', ''fa''), (''fa-'', ''fa'')]\<rparr> [] = Inr reg' \<and>
      new_IconFontsPattern (''&'' @ ''icon-'' @ ICON_RE) [] ''icon-'' = Inr p \<and>
      map_of reg' ''iconfonts'' = Some (p, 175) \<and>
      fst ` set reg' = {''iconfonts'', ''iconfonts_icon'', ''iconfonts_fa''})"
proof -
  have pl: "list_all plain_char ''icon-''" "list_all plain_char ''fa-''"
    by (simp_all add: plain_char_def)
  let ?cfg = "\<lparr>prefix = ''icon-'', base = [],
      prefix_base_pairs = [(''icon-'', ''fa''), (''fa-'', ''fa'')]\<rparr>"
  have 1: "list_all plain_char (prefix ?cfg)" using pl by simp
  have 2: "\<forall>(m, b)\<in>set (prefix_base_pairs ?cfg). list_all plain_char m" using pl by simp
  have 3: "rstrip CHR ''-'' ''icon-'' = ''icon''" "rstrip CHR ''-'' ''fa-'' = ''fa''"
    by (simp_all add: rstrip_def)
  from no_configuration_error [OF 1 2, of "[]"] obtain reg' p where
    "extendMarkdown ?cfg [] = Inr reg'"
    "new_IconFontsPattern (''&'' @ ''icon-'' @ ICON_RE) [] ''icon-'' = Inr p"
    "map_of reg' ''iconfonts'' = Some (p, 175)"
    "fst ` set reg' = {''iconfonts'', ''iconfonts_icon'', ''iconfonts_fa''}"
    by (auto simp: 3)
  with pl show ?thesis by blast
qed

text \<open>
  A pair is registered under \<open>iconfonts_\<close> followed by its marker without all its trailing
  hyphens. So where two pairs have markers that differ in trailing hyphens only, the names
  are the same, and whenever \<open>extendMarkdown\<close> returns a registry, it holds one entry under
  that name: the binding of the last such pair. With markers made of plain characters
  \<open>extendMarkdown\<close> does return a registry.
\<close>

lemma later_pair_replaces_earlier:
  assumes "prefix_base_pairs cfg = xs @ (m1, b1) # ys @ (m2, b2) # zs"
    and "rstrip CHR ''-'' m1 = rstrip CHR ''-'' m2"
    and "\<forall>(m, b)\<in>set zs. rstrip CHR ''-'' m \<noteq> rstrip CHR ''-'' m2"
  shows "(\<forall>n. rstrip CHR ''-'' (m1 @ replicate n CHR ''-'') = rstrip CHR ''-'' m1) \<and>
         (\<forall>reg'. extendMarkdown cfg reg = Inr reg' \<longrightarrow>
            (\<exists>p2. new_IconFontsPattern (''&'' @ m2 @ ICON_RE) b2 m2 = Inr p2 \<and>
                  filter (\<lambda>e. fst e = ''iconfonts_'' @ rstrip CHR ''-'' m1) reg' =
                    [(''iconfonts_'' @ rstrip CHR ''-'' m2, p2, 175)])) \<and>
         (list_all plain_char (prefix cfg) \<and>
          (\<forall>(m, b)\<in>set (prefix_base_pairs cfg). list_all plain_char m) \<longrightarrow>
          (\<exists>reg'. extendMarkdown cfg reg = Inr reg'))"
proof (intro conjI allI impI)
  fix n
  show "rstrip CHR ''-'' (m1 @ replicate n CHR ''-'') = rstrip CHR ''-'' m1"
    by (rule rstrip_hyphens)
next
  fix reg'
  assume e: "extendMarkdown cfg reg = Inr reg'"
  let ?k = "''iconfonts_'' @ rstrip CHR ''-'' m2"
  from e obtain r0 where
    "register_pairs ((xs @ (m1, b1) # ys) @ (m2, b2) # zs) r0 = Inr reg'"
    by (auto simp: extendMarkdown_def assms(1) split: sum.splits)
  then obtain r1 where r1: "register_pairs ((m2, b2) # zs) r1 = Inr reg'"
    unfolding register_pairs_append [of "xs @ (m1, b1) # ys"]
    by (auto split: sum.splits)
  then obtain p2 where p2: "new_IconFontsPattern (''&'' @ m2 @ ICON_RE) b2 m2 = Inr p2"
    and r2: "register_pairs zs (register p2 ?k 175 r1) = Inr reg'"
    by (auto split: sum.splits)
  from assms(3) have "\<forall>(m, b)\<in>set zs. ''iconfonts_'' @ rstrip CHR ''-'' m \<noteq> ?k"
    by auto
  from register_pairs_other [OF r2 this]
  have "filter (\<lambda>e. fst e = ?k) reg' = [(?k, p2, 175)]"
    by (simp add: filter_register_same)
  with p2 assms(2)
  show "\<exists>p2. new_IconFontsPattern (''&'' @ m2 @ ICON_RE) b2 m2 = Inr p2 \<and>
      filter (\<lambda>e. fst e = ''iconfonts_'' @ rstrip CHR ''-'' m1) reg' =
        [(''iconfonts_'' @ rstrip CHR ''-'' m2, p2, 175)]"
    by simp
next
  assume "list_all plain_char (prefix cfg) \<and>
      (\<forall>(m, b)\<in>set (prefix_base_pairs cfg). list_all plain_char m)"
  then have pl: "list_all plain_char (prefix cfg)"
    and ps: "\<forall>(m, b)\<in>set (prefix_base_pairs cfg). list_all plain_char m"
    by simp_all
  let ?p = "\<lparr>pattern = ''&'' @ prefix cfg @ ICON_RE, compiled_re = icon_pattern (prefix cfg),
      self_base = base cfg, self_prefix = prefix cfg\<rparr>"
  from register_pairs_plain [OF ps, of "register ?p ''iconfonts'' 175 reg"]
  obtain reg' where
    "register_pairs (prefix_base_pairs cfg) (register ?p ''iconfonts'' 175 reg) = Inr reg'"
    by blast
  with new_IconFontsPattern_plain [OF pl, of "base cfg"]
  have "extendMarkdown cfg reg = Inr reg'" by (simp add: extendMarkdown_def)
  then show "\<exists>reg'. extendMarkdown cfg reg = Inr reg'" ..
qed

lemma later_pair_replaces_earlier_example:
  "rstrip CHR ''-'' ''fa-'' = rstrip CHR ''-'' ''fa'' \<and>
   rstrip CHR ''-'' ''fa--'' = ''fa'' \<and>
   extendMarkdown
     \<lparr>prefix = ''icon-'', base = [],
      prefix_base_pairs = [(''fa-'', ''fa''), (''fa'', ''fab'')]\<rparr> [] =
     Inr [(''iconfonts'',
           \<lparr>pattern = ''&'' @ ''icon-'' @ ICON_RE, compiled_re = icon_pattern ''icon-'',
            self_base = [], self_prefix = ''icon-''\<rparr>, 175),
          (''iconfonts_fa'',
           \<lparr>pattern = ''&'' @ ''fa'' @ ICON_RE, compiled_re = icon_pattern ''fa'',
            self_base = ''fab'', self_prefix = ''fa''\<rparr>, 175)] \<and>
   filter (\<lambda>e. fst e = ''iconfonts_'' @ rstrip CHR ''-'' ''fa-'')
     [(''iconfonts'',
       \<lparr>pattern = ''&'' @ ''icon-'' @ ICON_RE, compiled_re = icon_pattern ''icon-'',
        self_base = [], self_prefix = ''icon-''\<rparr>, 175::int),
      (''iconfonts_fa'',
       \<lparr>pattern = ''&'' @ ''fa'' @ ICON_RE, compiled_re = icon_pattern ''fa'',
        self_base = ''fab'', self_prefix = ''fa''\<rparr>, 175::int)] =
     [(''iconfonts_'' @ rstrip CHR ''-'' ''fa'',
       \<lparr>pattern = ''&'' @ ''fa'' @ ICON_RE, compiled_re = icon_pattern ''fa'',
        self_base = ''fab'', self_prefix = ''fa''\<rparr>, 175::int)]"
proof -
  let ?cfg = "\<lparr>prefix = ''icon-'', base = [],
      prefix_base_pairs = [(''fa-'', ''fa''), (''fa'', ''fab'')]\<rparr>"
  let ?p0 = "\<lparr>pattern = ''&'' @ ''icon-'' @ ICON_RE, compiled_re = icon_pattern ''icon-'',
      self_base = [], self_prefix = ''icon-''\<rparr>"
  let ?p2 = "\<lparr>pattern = ''&'' @ ''fa'' @ ICON_RE, compiled_re = icon_pattern ''fa'',
      self_base = ''fab'', self_prefix = ''fa''\<rparr>"
  let ?reg = "[(''iconfonts'', ?p0, 175::int), (''iconfonts_fa'', ?p2, 175::int)]"
  have s: "rstrip CHR ''-'' ''fa-'' = rstrip CHR ''-'' ''fa''" by (simp add: rstrip_def)
  have a: "prefix_base_pairs ?cfg = [] @ (''fa-'', ''fa'') # [] @ (''fa'', ''fab'') # []"
    by simp
  have z: "\<forall>(m, b)\<in>set []. rstrip CHR ''-'' m \<noteq> rstrip CHR ''-'' ''fa''" by simp
  have e: "extendMarkdown ?cfg [] = Inr ?reg" by code_simp
  have p2: "new_IconFontsPattern (''&'' @ ''fa'' @ ICON_RE) ''fab'' ''fa'' = Inr ?p2"
    by (rule new_IconFontsPattern_plain) (simp add: plain_char_def)
  note t = later_pair_replaces_earlier [OF a s z, of "[]"]
  from t [THEN conjunct1, rule_format, of 1]
  have h: "rstrip CHR ''-'' ''fa--'' = ''fa''" by (simp add: rstrip_def)
  from t [THEN conjunct2, THEN conjunct1, rule_format, OF e]
  have "\<exists>q. new_IconFontsPattern (''&'' @ ''fa'' @ ICON_RE) ''fab'' ''fa'' = Inr q \<and>
      filter (\<lambda>e. fst e = ''iconfonts_'' @ rstrip CHR ''-'' ''fa-'') ?reg =
        [(''iconfonts_'' @ rstrip CHR ''-'' ''fa'', q, 175)]" .
  then have f: "filter (\<lambda>e. fst e = ''iconfonts_'' @ rstrip CHR ''-'' ''fa-'') ?reg =
      [(''iconfonts_'' @ rstrip CHR ''-'' ''fa'', ?p2, 175::int)]"
    unfolding p2 by (elim exE conjE) (simp only: sum.inject)
  from s h e f show ?thesis by (intro conjI)
qed

text \<open>
  C10. Two pairs whose markers differ in trailing hyphens only have to end under one name,
  the later binding in the place of the earlier, and nothing raised. The marker is put into
  the pattern as it is (see C3): for the pairs with the markers \<open>(-\<close> and \<open>(\<close>, in either
  order, the pattern of the first pair does not compile and \<open>extendMarkdown\<close> leaves with
  \<open>re.error\<close>; no binding of a pair is registered.
\<close>

theorem trailing_hyphen_pairs_raise:
  "rstrip CHR ''-'' ''(-'' = rstrip CHR ''-'' ''('' \<and>
   extendMarkdown
     \<lparr>prefix = ''icon-'', base = [],
      prefix_base_pairs = [(''(-'', ''fa''), (''('', ''fab'')]\<rparr> [] =
     Inl (Re_error ''missing ), unterminated subpattern'') \<and>
   extendMarkdown
     \<lparr>prefix = ''icon-'', base = [],
      prefix_base_pairs = [(''('', ''fab''), (''(-'', ''fa'')]\<rparr> [] =
     Inl (Re_error ''missing ), unterminated subpattern'')"
  by code_simp

end
